theory Spec2Isabelle
  imports Main
begin

section \<open>The chat server of \<^verbatim>\<open>src/Client/Client/Client.cpp\<close>\<close>

text \<open>
  The file holds the client program (lines 1-74) and the server program (lines 368-536).
  The server keeps two global containers, \<^verbatim>\<open>clients\<close> (a vector of socket handles, the
  targets of every broadcast) and \<^verbatim>\<open>clientNames\<close> (a map from handle to display name),
  both guarded by the one mutex \<^verbatim>\<open>clients_mutex\<close>. The listener thread (\<^verbatim>\<open>main\<close>) accepts
  connections; one detached thread per connection runs \<^verbatim>\<open>handleClient\<close>.

  The embedding is a transition system. A handler thread is cut at every point where it
  touches something shared with other threads: a blocking \<^verbatim>\<open>recv\<close>, a block guarded by the
  mutex, a \<^verbatim>\<open>closesocket\<close>. Each piece is one atomic step; the mutex is what makes the guarded
  blocks atomic in the program. Everything the environment decides (the handle \<^verbatim>\<open>accept\<close>
  returns, what \<^verbatim>\<open>recv\<close> returns, which \<^verbatim>\<open>send\<close> calls fail, the order in which the threads
  run) is an input of the step, so a schedule is a list of actions and the model runs.
  Every step appends what it does to a trace of events.

  Statements that touch only the variables of the thread itself (building a string,
  writing a log line) belong to the step of the shared access next to them. Socket handles
  are numbers that the operating system gives out again once they are closed. Exceptions
  (a failed allocation inside the \<^verbatim>\<open>try\<close> block) are left out.
\<close>

subsection \<open>Handles, bytes, events\<close>

type_synonym SOCKET = nat

abbreviation NUL :: char where
  "NUL \<equiv> CHR 0x00"

text \<open>The thread that performs an event: the listener (\<^verbatim>\<open>main\<close>) or the handler thread
  with the given index.\<close>

datatype who = Listener | Handler nat

text \<open>The lines written to \<^verbatim>\<open>std::cout\<close> and \<^verbatim>\<open>std::cerr\<close>, one constructor per
  statement of the source:
  \<^item> \<open>Connected n\<close>: line 413, \<^verbatim>\<open>Client '<n>' connected.\<close>
  \<^item> \<open>NameError\<close>: line 419, \<^verbatim>\<open>Error receiving client name. Closing connection.\<close>
  \<^item> \<open>Disconnected n\<close>: line 436, \<^verbatim>\<open>Client '<n>' disconnected.\<close>
  \<^item> \<open>NotFound\<close>: line 442, \<^verbatim>\<open>Client socket not found in map, possibly already removed.\<close>
  \<^item> \<open>ReceivedLine m\<close>: line 456, \<^verbatim>\<open>Received: <m>\<close>
  \<^item> \<open>SendFailed\<close>: line 390, \<^verbatim>\<open>Failed to send message to a client. Error: ...\<close>
  \<^item> \<open>AcceptFailed\<close>: line 517, \<^verbatim>\<open>Accept failed. Error: ...\<close>\<close>

datatype log_line =
    Connected string
  | NameError
  | Disconnected string
  | NotFound
  | ReceivedLine string
  | SendFailed
  | AcceptFailed

text \<open>\<open>Send w c bs failed\<close> is one call \<^verbatim>\<open>send(c, ...)\<close> that writes the bytes \<open>bs\<close>;
  \<open>failed\<close> says that the call returned \<^verbatim>\<open>SOCKET_ERROR\<close>. \<open>Lock\<close> and \<open>Unlock\<close> are the
  construction and the destruction of a \<^verbatim>\<open>std::lock_guard\<close> on \<^verbatim>\<open>clients_mutex\<close>.\<close>

datatype event =
    Lock who
  | Unlock who
  | Send who SOCKET string bool
  | Log who log_line
  | Close who SOCKET

subsection \<open>What \<^verbatim>\<open>recv\<close> returns\<close>

datatype recv_result = Recv_failed | Recv_bytes string

definition SOCKET_ERROR :: int where
  "SOCKET_ERROR = - 1"

fun bytesReceived :: "recv_result \<Rightarrow> int" where
  "bytesReceived Recv_failed = SOCKET_ERROR"
| "bytesReceived (Recv_bytes d) = int (length d)"

fun received :: "recv_result \<Rightarrow> string" where
  "received Recv_failed = []"
| "received (Recv_bytes d) = d"

text \<open>\<^verbatim>\<open>recv(clientSocket, buf, 4096, 0)\<close> never returns more than 4096 bytes.\<close>

definition recv_fits :: "recv_result \<Rightarrow> bool" where
  "recv_fits r = (length (received r) \<le> 4096)"

text \<open>
  \<^verbatim>\<open>std::string(buf, 0, bytesReceived)\<close> (lines 405 and 455), where \<^verbatim>\<open>buf\<close> is the array
  \<^verbatim>\<open>char buf[4096]\<close>, zeroed before the \<^verbatim>\<open>recv\<close> that wrote \<open>d\<close> into it. No constructor of
  \<^verbatim>\<open>std::string\<close> takes (pointer, position, count): the call converts \<^verbatim>\<open>buf\<close> as a C string,
  which ends before the first NUL byte, and takes the substring of at most
  \<^verbatim>\<open>bytesReceived\<close> characters from position 0 of that. With 4096 bytes received and no NUL
  among them the conversion reads past the array: undefined behaviour, \<open>None\<close> here.
\<close>

definition buf_string :: "string \<Rightarrow> string option" where
  "buf_string d =
     (if length d = 4096 \<and> NUL \<notin> set d then None
      else Some (take (length d) (takeWhile (\<lambda>c. c \<noteq> NUL) d)))"

subsection \<open>State\<close>

text \<open>Where a handler thread stands, by the line of the statement it runs next.\<close>

datatype pc =
    L403        \<comment> \<open>\<^verbatim>\<open>recv\<close> of the name\<close>
  | L405        \<comment> \<open>the name is read; store it under the mutex\<close>
  | L417        \<comment> \<open>broadcast the join notice\<close>
  | L427        \<comment> \<open>\<^verbatim>\<open>recv\<close> at the head of the communication loop\<close>
  | L431        \<comment> \<open>the read failed or returned 0: the guarded removal block\<close>
  | L448        \<comment> \<open>broadcast the leave notice\<close>
  | L450        \<comment> \<open>\<^verbatim>\<open>closesocket\<close> and \<^verbatim>\<open>break\<close>\<close>
  | L455        \<comment> \<open>build the chat line and broadcast it\<close>
  | L468        \<comment> \<open>the \<^verbatim>\<open>closesocket\<close> after the \<^verbatim>\<open>try\<close> block\<close>
  | Finished    \<comment> \<open>\<^verbatim>\<open>handleClient\<close> has returned\<close>
  | Undefined   \<comment> \<open>undefined behaviour was reached\<close>

record thread =
  clientSocket :: SOCKET
  pc :: pc
  clientName :: string
  buf :: string

text \<open>\<open>opened\<close> is the operating system's table of open socket handles; the rest is
  the process.\<close>

record system =
  clients :: "SOCKET list"
  clientNames :: "SOCKET \<rightharpoonup> string"
  opened :: "SOCKET set"
  threads :: "thread list"
  trace :: "event list"

definition init :: system where
  "init = \<lparr>clients = [], clientNames = Map.empty, opened = {}, threads = [], trace = []\<rparr>"

definition emit :: "event list \<Rightarrow> system \<Rightarrow> system" where
  "emit es st = st\<lparr>trace := trace st @ es\<rparr>"

definition goto :: "nat \<Rightarrow> pc \<Rightarrow> system \<Rightarrow> system" where
  "goto tid l st = st\<lparr>threads := (threads st)[tid := (threads st ! tid)\<lparr>pc := l\<rparr>]\<rparr>"

definition closesocket :: "who \<Rightarrow> SOCKET \<Rightarrow> system \<Rightarrow> system" where
  "closesocket w s st = emit [Close w s] (st\<lparr>opened := opened st - {s}\<rparr>)"

subsection \<open>\<^verbatim>\<open>broadcastMessage\<close> (lines 383-394)\<close>

text \<open>
  The loop over \<^verbatim>\<open>clients\<close>. \<open>i\<close> is the position in the vector. A \<^verbatim>\<open>send\<close> to a handle that
  is not open fails; on an open handle the environment decides: \<open>fails\<close> lists the positions
  whose \<^verbatim>\<open>send\<close> returns \<^verbatim>\<open>SOCKET_ERROR\<close>. The bytes written are
  \<^verbatim>\<open>message.c_str()\<close> up to \<^verbatim>\<open>message.size() + 1\<close>: the text and the terminator after it.
\<close>

fun send_loop :: "who \<Rightarrow> nat list \<Rightarrow> SOCKET set \<Rightarrow> string \<Rightarrow> SOCKET \<Rightarrow> nat \<Rightarrow> SOCKET list \<Rightarrow> event list" where
  "send_loop w fails op message sender i [] = []"
| "send_loop w fails op message sender i (client # rest) =
     (if client \<noteq> sender then
        (if client \<notin> op \<or> i \<in> set fails
         then [Send w client (message @ [NUL]) True, Log w SendFailed]
         else [Send w client (message @ [NUL]) False])
      else [])
     @ send_loop w fails op message sender (Suc i) rest"

text \<open>The guard is taken on the first line and lives until the function returns.
  Nothing of the shared state is written, so the function is its events.\<close>

definition broadcastMessage :: "who \<Rightarrow> nat list \<Rightarrow> string \<Rightarrow> SOCKET \<Rightarrow> system \<Rightarrow> event list" where
  "broadcastMessage w fails message sender st =
     [Lock w] @ send_loop w fails (opened st) message sender 0 (clients st) @ [Unlock w]"

subsection \<open>\<^verbatim>\<open>handleClient\<close> (lines 396-469)\<close>

text \<open>Lines 402-404 and 418-421: the first read. A positive count goes on to line 405;
  anything else logs, closes the socket and returns from the function. A read of more
  than 4096 bytes does not exist: the step does nothing on such an input.\<close>

definition handleClient_recv_name :: "nat \<Rightarrow> recv_result \<Rightarrow> system \<Rightarrow> system" where
  "handleClient_recv_name tid r st =
     (let t = threads st ! tid in
      if \<not> recv_fits r then st
      else if bytesReceived r > 0
      then st\<lparr>threads := (threads st)[tid := t\<lparr>buf := received r, pc := L405\<rparr>]\<rparr>
      else goto tid Finished
             (closesocket (Handler tid) (clientSocket t)
               (emit [Log (Handler tid) NameError] st)))"

text \<open>Lines 405-413: the name is built from the buffer and stored under the mutex.\<close>

definition handleClient_store_name :: "nat \<Rightarrow> system \<Rightarrow> system" where
  "handleClient_store_name tid st =
     (let t = threads st ! tid in
      case buf_string (buf t) of
        None \<Rightarrow> goto tid Undefined st
      | Some n \<Rightarrow>
          emit [Lock (Handler tid), Unlock (Handler tid), Log (Handler tid) (Connected n)]
            (st\<lparr>clientNames := (clientNames st)(clientSocket t \<mapsto> n),
                threads := (threads st)[tid := t\<lparr>clientName := n, pc := L417\<rparr>]\<rparr>))"

text \<open>Lines 416-417.\<close>

definition handleClient_join :: "nat \<Rightarrow> nat list \<Rightarrow> system \<Rightarrow> system" where
  "handleClient_join tid fails st =
     (let t = threads st ! tid in
      goto tid L427
        (emit (broadcastMessage (Handler tid) fails
                 (clientName t @ '' has joined the chat.'') (clientSocket t) st) st))"

text \<open>Lines 426-428: the read at the head of the loop and the test on its result.\<close>

definition handleClient_recv :: "nat \<Rightarrow> recv_result \<Rightarrow> system \<Rightarrow> system" where
  "handleClient_recv tid r st =
     (let t = threads st ! tid in
      if \<not> recv_fits r then st
      else if bytesReceived r = SOCKET_ERROR \<or> bytesReceived r = 0
      then goto tid L431 st
      else st\<lparr>threads := (threads st)[tid := t\<lparr>buf := received r, pc := L455\<rparr>]\<rparr>)"

text \<open>Lines 430-444, the guarded block of the disconnect branch, on the shared state:
  the name the handler holds afterwards, and the new state. \<^verbatim>\<open>std::remove\<close> with \<^verbatim>\<open>erase\<close>
  takes every occurrence of the handle out of the vector.\<close>

definition disconnect_block :: "who \<Rightarrow> SOCKET \<Rightarrow> string \<Rightarrow> system \<Rightarrow> string \<times> system" where
  "disconnect_block w s name st =
     (case clientNames st s of
        Some n \<Rightarrow>
          (n, emit [Lock w, Log w (Disconnected n), Unlock w]
                (st\<lparr>clients := removeAll s (clients st),
                    clientNames := (clientNames st)(s := None)\<rparr>))
      | None \<Rightarrow> (name, emit [Lock w, Log w NotFound, Unlock w] st))"

definition handleClient_remove :: "nat \<Rightarrow> system \<Rightarrow> system" where
  "handleClient_remove tid st =
     (let t = threads st ! tid;
          (n, st') = disconnect_block (Handler tid) (clientSocket t) (clientName t) st
      in st'\<lparr>threads := (threads st')[tid := t\<lparr>clientName := n, pc := L448\<rparr>]\<rparr>)"

text \<open>Lines 447-448.\<close>

definition handleClient_leave :: "nat \<Rightarrow> nat list \<Rightarrow> system \<Rightarrow> system" where
  "handleClient_leave tid fails st =
     (let t = threads st ! tid in
      goto tid L450
        (emit (broadcastMessage (Handler tid) fails
                 (clientName t @ '' has left the chat.'') (clientSocket t) st) st))"

text \<open>Lines 455-459: the chat line is the name the handler holds, a colon and a blank, and
  the text of the buffer.\<close>

definition handleClient_message :: "nat \<Rightarrow> nat list \<Rightarrow> system \<Rightarrow> system" where
  "handleClient_message tid fails st =
     (let t = threads st ! tid in
      case buf_string (buf t) of
        None \<Rightarrow> goto tid Undefined st
      | Some payload \<Rightarrow>
          (let message = clientName t @ '': '' @ payload in
           goto tid L427
             (emit (Log (Handler tid) (ReceivedLine message)
                      # broadcastMessage (Handler tid) fails message (clientSocket t) st) st)))"

text \<open>One step of the handler thread \<open>tid\<close>. \<open>r\<close> is what a \<^verbatim>\<open>recv\<close> of this step returns and
  \<open>fails\<close> the sends of this step that fail; a step that does neither ignores them. A
  thread that does not exist or has finished does nothing.\<close>

definition handleClient :: "nat \<Rightarrow> recv_result \<Rightarrow> nat list \<Rightarrow> system \<Rightarrow> system" where
  "handleClient tid r fails st =
     (if tid < length (threads st) then
        (case pc (threads st ! tid) of
           L403 \<Rightarrow> handleClient_recv_name tid r st
         | L405 \<Rightarrow> handleClient_store_name tid st
         | L417 \<Rightarrow> handleClient_join tid fails st
         | L427 \<Rightarrow> handleClient_recv tid r st
         | L431 \<Rightarrow> handleClient_remove tid st
         | L448 \<Rightarrow> handleClient_leave tid fails st
         | L450 \<Rightarrow> goto tid L468 (closesocket (Handler tid) (clientSocket (threads st ! tid)) st)
         | L455 \<Rightarrow> handleClient_message tid fails st
         | L468 \<Rightarrow> goto tid Finished (closesocket (Handler tid) (clientSocket (threads st ! tid)) st)
         | Finished \<Rightarrow> st
         | Undefined \<Rightarrow> st)
      else st)"

subsection \<open>The accept loop of \<^verbatim>\<open>main\<close> (lines 511-530)\<close>

text \<open>\<^verbatim>\<open>accept\<close> returns a handle that is not open at that moment. The handle goes into
  \<^verbatim>\<open>clients\<close> under the mutex, then the handler thread starts.\<close>

definition main_accept :: "SOCKET \<Rightarrow> system \<Rightarrow> system" where
  "main_accept s st =
     (if s \<in> opened st then st
      else st\<lparr>opened := insert s (opened st),
              clients := clients st @ [s],
              threads := threads st @ [\<lparr>clientSocket = s, pc = L403, clientName = [], buf = []\<rparr>],
              trace := trace st @ [Lock Listener, Unlock Listener]\<rparr>)"

datatype action =
    Accept SOCKET
  | AcceptFails
  | Run nat recv_result "nat list"

fun step :: "action \<Rightarrow> system \<Rightarrow> system" where
  "step (Accept s) st = main_accept s st"
| "step AcceptFails st = emit [Log Listener AcceptFailed] st"
| "step (Run tid r fails) st = handleClient tid r fails st"

fun exec :: "action list \<Rightarrow> system \<Rightarrow> system" where
  "exec [] st = st"
| "exec (a # as) st = exec as (step a st)"

subsection \<open>The client program (lines 50-67)\<close>

text \<open>The blocks of bytes the client passes to \<^verbatim>\<open>send\<close>, given the name and the lines read
  from the terminal: \<^verbatim>\<open>c_str()\<close> up to \<^verbatim>\<open>size() + 1\<close> for the name, then for every line that
  is not empty.\<close>

definition client_main :: "string \<Rightarrow> string list \<Rightarrow> string list" where
  "client_main name userInputs =
     (name @ [NUL])
       # map (\<lambda>userInput. userInput @ [NUL])
           (filter (\<lambda>userInput. length userInput > 0) userInputs)"

subsection \<open>Reading traces and states\<close>

text \<open>Who holds \<^verbatim>\<open>clients_mutex\<close> after the events, when \<open>h\<close> held it before.\<close>

fun holder :: "who option \<Rightarrow> event list \<Rightarrow> who option" where
  "holder h [] = h"
| "holder h (Lock w # es) = holder (Some w) es"
| "holder h (Unlock w # es) = holder None es"
| "holder h (e # es) = holder h es"

text \<open>Every \<^verbatim>\<open>send\<close> of the events is made by a thread that does not hold the mutex at
  that moment; every \<^verbatim>\<open>send\<close> is made by the thread that holds it.\<close>

fun sends_outside_lock :: "who option \<Rightarrow> event list \<Rightarrow> bool" where
  "sends_outside_lock h [] = True"
| "sends_outside_lock h (Send w c bs f # es) = (h \<noteq> Some w \<and> sends_outside_lock h es)"
| "sends_outside_lock h (e # es) = sends_outside_lock (holder h [e]) es"

fun sends_inside_lock :: "who option \<Rightarrow> event list \<Rightarrow> bool" where
  "sends_inside_lock h [] = True"
| "sends_inside_lock h (Send w c bs f # es) = (h = Some w \<and> sends_inside_lock h es)"
| "sends_inside_lock h (e # es) = sends_inside_lock (holder h [e]) es"

definition balanced :: "event list \<Rightarrow> bool" where
  "balanced es = (sends_inside_lock None es \<and> holder None es = None)"

text \<open>The \<^verbatim>\<open>send\<close> calls of a trace, in order: target, bytes, and whether the call failed.\<close>

fun sends_of :: "event list \<Rightarrow> (SOCKET \<times> string \<times> bool) list" where
  "sends_of [] = []"
| "sends_of (Send w c bs f # es) = (c, bs, f) # sends_of es"
| "sends_of (e # es) = sends_of es"

text \<open>Every failed \<^verbatim>\<open>send\<close> is followed at once by the log line of line 390, written
  by the same thread.\<close>

fun failures_logged :: "event list \<Rightarrow> bool" where
  "failures_logged [] = True"
| "failures_logged (Send w c bs True # Log w' SendFailed # es) = (w' = w \<and> failures_logged es)"
| "failures_logged (Send w c bs True # es) = False"
| "failures_logged (e # es) = failures_logged es"



text \<open>What a step added to the trace.\<close>

definition new_events :: "system \<Rightarrow> system \<Rightarrow> event list" where
  "new_events st st' = drop (length (trace st)) (trace st')"

text \<open>The two containers the specification calls the Registry.\<close>

definition registry :: "system \<Rightarrow> SOCKET list \<times> (SOCKET \<rightharpoonup> string)" where
  "registry st = (clients st, clientNames st)"

text \<open>A handler has completed the handshake when it has stored the name (it is past line
  410), and it has left when it has run the removal block (it is past line 444).\<close>

fun joined :: "pc \<Rightarrow> bool" where
  "joined L417 = True"
| "joined L427 = True"
| "joined L455 = True"
| "joined L431 = True"
| "joined l = False"

fun awaiting_name :: "pc \<Rightarrow> bool" where
  "awaiting_name L403 = True"
| "awaiting_name L405 = True"
| "awaiting_name l = False"

definition no_undefined :: "system \<Rightarrow> bool" where
  "no_undefined st = list_all (\<lambda>t. pc t \<noteq> Undefined) (threads st)"

text \<open>The handles held by handler threads that have not returned.\<close>

definition held :: "system \<Rightarrow> SOCKET list" where
  "held st = map clientSocket (filter (\<lambda>t. pc t \<noteq> Finished) (threads st))"

text \<open>A schedule in which \<^verbatim>\<open>accept\<close> never returns a handle that a running handler thread
  still holds. The operating system gives this for a handle that is open; a handler that
  is between its two \<^verbatim>\<open>closesocket\<close> calls (lines 450 and 468) holds a handle that is closed
  already, and this condition says that the handle is not given out again in between.\<close>

fun fresh_accepts :: "action list \<Rightarrow> system \<Rightarrow> bool" where
  "fresh_accepts [] st = True"
| "fresh_accepts (Accept s # as) st = (s \<notin> set (held st) \<and> fresh_accepts as (step (Accept s) st))"
| "fresh_accepts (a # as) st = fresh_accepts as (step a st)"

text \<open>The invariant of the two containers, over the threads by their index: no two
  handler threads that have not returned hold the same handle; a handle has a name in
  \<^verbatim>\<open>clientNames\<close> exactly when a handler that holds it has completed the handshake and has
  not left; a handler that has not left finds its handle in \<^verbatim>\<open>clients\<close>.\<close>

definition registry_inv :: "system \<Rightarrow> bool" where
  "registry_inv st =
     ((\<forall>i<length (threads st). \<forall>j<length (threads st).
          i \<noteq> j \<longrightarrow> pc (threads st ! i) \<noteq> Finished \<longrightarrow> pc (threads st ! j) \<noteq> Finished
            \<longrightarrow> clientSocket (threads st ! i) \<noteq> clientSocket (threads st ! j))
      \<and> (\<forall>s. (s \<in> dom (clientNames st))
            = (\<exists>i<length (threads st). clientSocket (threads st ! i) = s \<and> joined (pc (threads st ! i))))
      \<and> (\<forall>i<length (threads st).
            joined (pc (threads st ! i)) \<or> awaiting_name (pc (threads st ! i))
              \<longrightarrow> clientSocket (threads st ! i) \<in> set (clients st)))"

text \<open>A thread that holds the handle \<open>s\<close> and, as long as it has not run the removal
  block, the name \<open>n\<close>; a thread that holds \<open>s\<close> and, until it has broadcast the leave
  notice, the name \<open>n\<close>.\<close>

definition named_as :: "SOCKET \<Rightarrow> string \<Rightarrow> thread \<Rightarrow> bool" where
  "named_as s n t = (clientSocket t = s \<and> (joined (pc t) \<and> clientName t = n
      \<or> pc t = L448 \<or> pc t = L450 \<or> pc t = L468 \<or> pc t = Finished \<or> pc t = Undefined))"

definition leaving_as :: "SOCKET \<Rightarrow> string \<Rightarrow> thread \<Rightarrow> bool" where
  "leaving_as s n t = (clientSocket t = s \<and> (pc t = L448 \<and> clientName t = n
      \<or> pc t = L450 \<or> pc t = L468 \<or> pc t = Finished))"



text \<open>A handle that is a broadcast target, is closed, and is held by no handler thread
  that still runs.\<close>

definition stale :: "SOCKET \<Rightarrow> system \<Rightarrow> bool" where
  "stale s st = (s \<in> set (clients st) \<and> s \<notin> opened st \<and> s \<notin> set (held st))"

subsection \<open>A run in which a handle is closed twice\<close>

text \<open>
  A handler that leaves through the disconnect branch calls \<^verbatim>\<open>closesocket\<close> at line 450 and,
  after the \<^verbatim>\<open>break\<close>, again at line 468. Between the two the handle is free, and
  \<^verbatim>\<open>accept\<close> may return it for a new connection; the second call then closes the socket of
  that connection, and \<^verbatim>\<open>accept\<close> may return the handle once more. Three runs, each the
  continuation of the one before. The steps of a handler that neither read nor send are
  written with \<open>Recv_failed\<close> and \<open>[]\<close>, which they ignore.

  First: socket 7 is accepted (thread 0) and stays silent. Socket 5 is accepted (thread 1);
  its client sends the name Ann, the handler stores it and broadcasts the join notice; the
  next read fails, the handler runs the removal block, broadcasts the leave notice and
  closes handle 5 at line 450. Handle 5 is accepted again (thread 2), and its client sends
  the name Bob.
\<close>

definition double_close_run_1 :: "action list" where
  "double_close_run_1 =
     [Accept 7,                                 \<comment> \<open>thread 0 holds handle 7\<close>
      Accept 5,                                 \<comment> \<open>thread 1 holds handle 5\<close>
      Run 1 (Recv_bytes (''Ann'' @ [NUL])) [],  \<comment> \<open>line 403: the name arrives\<close>
      Run 1 Recv_failed [],                     \<comment> \<open>lines 405-413: Ann is stored\<close>
      Run 1 Recv_failed [],                     \<comment> \<open>line 417: join notice\<close>
      Run 1 Recv_failed [],                     \<comment> \<open>line 427: the read fails\<close>
      Run 1 Recv_failed [],                     \<comment> \<open>lines 430-444: removal block\<close>
      Run 1 Recv_failed [],                     \<comment> \<open>line 448: leave notice\<close>
      Run 1 Recv_failed [],                     \<comment> \<open>line 450: handle 5 is closed\<close>
      Accept 5,                                 \<comment> \<open>thread 2 holds handle 5\<close>
      Run 2 (Recv_bytes (''Bob'' @ [NUL])) []]  \<comment> \<open>line 403: the name arrives\<close>"

text \<open>Second: thread 2 stores the name Bob and broadcasts the join notice. Thread 1 runs
  line 468 and closes handle 5, which thread 2 holds. Handle 5 is accepted a third time
  (thread 3); its client sends the name Cy, and thread 3 stores it over the entry of
  handle 5.\<close>

definition double_close_run_2 :: "action list" where
  "double_close_run_2 =
     [Run 2 Recv_failed [],                     \<comment> \<open>lines 405-413: Bob is stored\<close>
      Run 2 Recv_failed [],                     \<comment> \<open>line 417: join notice\<close>
      Run 1 Recv_failed [],                     \<comment> \<open>line 468: handle 5 is closed again\<close>
      Accept 5,                                 \<comment> \<open>thread 3 holds handle 5\<close>
      Run 3 (Recv_bytes (''Cy'' @ [NUL])) [],   \<comment> \<open>line 403: the name arrives\<close>
      Run 3 Recv_failed []]                     \<comment> \<open>lines 405-413: Cy is stored\<close>"

text \<open>Third: thread 3 broadcasts its join notice; its next read fails and it runs the
  removal block, which erases the entry of handle 5. Then the read of thread 2 fails.\<close>

definition double_close_run_3 :: "action list" where
  "double_close_run_3 =
     [Run 3 Recv_failed [],                     \<comment> \<open>line 417: join notice\<close>
      Run 3 Recv_failed [],                     \<comment> \<open>line 427: the read fails\<close>
      Run 3 Recv_failed [],                     \<comment> \<open>lines 430-444: removal block\<close>
      Run 2 Recv_failed []]                     \<comment> \<open>line 427: the read fails\<close>"

section \<open>Basic facts\<close>

lemmas model_defs =
  init_def emit_def goto_def closesocket_def broadcastMessage_def
  handleClient_recv_name_def handleClient_store_name_def handleClient_join_def
  handleClient_recv_def disconnect_block_def handleClient_remove_def handleClient_leave_def
  handleClient_message_def handleClient_def main_accept_def
  recv_fits_def buf_string_def SOCKET_ERROR_def

lemma exec_append: "exec (xs @ ys) st = exec ys (exec xs st)"
  by (induction xs arbitrary: st) simp_all

lemma trace_emit [simp]: "trace (emit es st) = trace st @ es"
  and clients_emit [simp]: "clients (emit es st) = clients st"
  and clientNames_emit [simp]: "clientNames (emit es st) = clientNames st"
  and opened_emit [simp]: "opened (emit es st) = opened st"
  and threads_emit [simp]: "threads (emit es st) = threads st"
  by (simp_all add: emit_def)

lemma trace_goto [simp]: "trace (goto tid l st) = trace st"
  and clients_goto [simp]: "clients (goto tid l st) = clients st"
  and clientNames_goto [simp]: "clientNames (goto tid l st) = clientNames st"
  and opened_goto [simp]: "opened (goto tid l st) = opened st"
  and threads_goto [simp]:
    "threads (goto tid l st) = (threads st)[tid := (threads st ! tid)\<lparr>pc := l\<rparr>]"
  by (simp_all add: goto_def)

lemma trace_closesocket [simp]: "trace (closesocket w s st) = trace st @ [Close w s]"
  and clients_closesocket [simp]: "clients (closesocket w s st) = clients st"
  and clientNames_closesocket [simp]: "clientNames (closesocket w s st) = clientNames st"
  and opened_closesocket [simp]: "opened (closesocket w s st) = opened st - {s}"
  and threads_closesocket [simp]: "threads (closesocket w s st) = threads st"
  by (simp_all add: closesocket_def)

lemmas handler_defs =
  handleClient_recv_name_def handleClient_store_name_def handleClient_join_def
  handleClient_recv_def handleClient_remove_def handleClient_leave_def
  handleClient_message_def

subsection \<open>The mutex along a trace\<close>

lemma holder_append: "holder h (xs @ ys) = holder (holder h xs) ys"
  by (induction h xs rule: holder.induct) simp_all

lemma sends_inside_lock_append:
  "sends_inside_lock h (xs @ ys) = (sends_inside_lock h xs \<and> sends_inside_lock (holder h xs) ys)"
  by (induction h xs rule: sends_inside_lock.induct) simp_all

lemma holder_send_loop: "holder h (send_loop w fails op m s i cs) = h"
  by (induction cs arbitrary: i) (simp_all add: holder_append)

lemma inside_send_loop: "sends_inside_lock (Some w) (send_loop w fails op m s i cs)"
  by (induction cs arbitrary: i) (simp_all add: sends_inside_lock_append)

lemma balanced_append: "balanced xs \<Longrightarrow> balanced ys \<Longrightarrow> balanced (xs @ ys)"
  by (simp add: balanced_def sends_inside_lock_append holder_append)

lemma balanced_broadcast: "balanced (broadcastMessage w fails m s st)"
  by (simp add: balanced_def broadcastMessage_def sends_inside_lock_append holder_append
      inside_send_loop holder_send_loop)

lemma balanced_log: "balanced (Log w l # es) = balanced es"
  by (simp add: balanced_def)

lemma handleClient_trace:
  "\<exists>es. trace (handleClient tid r fails st) = trace st @ es \<and> balanced es"
proof -
  have nil: "balanced []" by (simp add: balanced_def)
  show ?thesis
    unfolding handleClient_def
    by (auto simp: Let_def handler_defs disconnect_block_def balanced_broadcast balanced_log nil
        split: pc.splits option.splits prod.splits)
       (simp_all add: balanced_def)
qed

lemma step_trace: "\<exists>es. trace (step a st) = trace st @ es \<and> balanced es"
proof (cases a)
  case (Accept s)
  then show ?thesis by (simp add: main_accept_def balanced_def)
next
  case AcceptFails
  then show ?thesis by (simp add: balanced_def)
next
  case (Run tid r fails)
  then show ?thesis using handleClient_trace by simp
qed

lemma exec_trace: "\<exists>es. trace (exec sched st) = trace st @ es \<and> balanced es"
proof (induction sched arbitrary: st)
  case Nil
  then show ?case by (simp add: balanced_def)
next
  case (Cons a sched)
  obtain es1 where 1: "trace (step a st) = trace st @ es1" "balanced es1"
    using step_trace by blast
  obtain es2 where 2: "trace (exec sched (step a st)) = trace (step a st) @ es2" "balanced es2"
    using Cons.IH by blast
  show ?case using 1 2 balanced_append by auto
qed

subsection \<open>The sends of a broadcast\<close>

lemma sends_of_append: "sends_of (xs @ ys) = sends_of xs @ sends_of ys"
  by (induction xs rule: sends_of.induct) simp_all

lemma targets_send_loop:
  "map fst (sends_of (send_loop w fails op m s i cs)) = filter (\<lambda>c. c \<noteq> s) cs"
  by (induction cs arbitrary: i) (simp_all add: sends_of_append)

lemma failures_logged_send_loop: "failures_logged (send_loop w fails op m s i cs @ [Unlock w])"
  by (induction cs arbitrary: i) simp_all

subsection \<open>Steps and threads\<close>

lemma exec_invariant:
  assumes "\<And>a st. P st \<Longrightarrow> P (step a st)" and "P st"
  shows "P (exec sched st)"
  using assms(2) by (induction sched arbitrary: st) (simp_all add: assms(1))

lemma handleClient_at:
  assumes "tid < length (threads st)"
  shows "pc (threads st ! tid) = L403 \<Longrightarrow> handleClient tid r fails st = handleClient_recv_name tid r st"
    and "pc (threads st ! tid) = L405 \<Longrightarrow> handleClient tid r fails st = handleClient_store_name tid st"
    and "pc (threads st ! tid) = L417 \<Longrightarrow> handleClient tid r fails st = handleClient_join tid fails st"
    and "pc (threads st ! tid) = L427 \<Longrightarrow> handleClient tid r fails st = handleClient_recv tid r st"
    and "pc (threads st ! tid) = L431 \<Longrightarrow> handleClient tid r fails st = handleClient_remove tid st"
    and "pc (threads st ! tid) = L448 \<Longrightarrow> handleClient tid r fails st = handleClient_leave tid fails st"
    and "pc (threads st ! tid) = L450 \<Longrightarrow> handleClient tid r fails st
           = goto tid L468 (closesocket (Handler tid) (clientSocket (threads st ! tid)) st)"
    and "pc (threads st ! tid) = L455 \<Longrightarrow> handleClient tid r fails st = handleClient_message tid fails st"
    and "pc (threads st ! tid) = L468 \<Longrightarrow> handleClient tid r fails st
           = goto tid Finished (closesocket (Handler tid) (clientSocket (threads st ! tid)) st)"
    and "pc (threads st ! tid) = Finished \<Longrightarrow> handleClient tid r fails st = st"
    and "pc (threads st ! tid) = Undefined \<Longrightarrow> handleClient tid r fails st = st"
  using assms by (simp_all add: handleClient_def)

lemma length_threads_handleClient [simp]:
  "length (threads (handleClient tid r fails st)) = length (threads st)"
  by (simp add: handleClient_def handler_defs disconnect_block_def Let_def
      split: pc.splits option.splits prod.splits)

lemma other_thread_handleClient:
  "tid' \<noteq> tid \<Longrightarrow> threads (handleClient tid' r fails st) ! tid = threads st ! tid"
  by (simp add: handleClient_def handler_defs disconnect_block_def Let_def
      split: pc.splits option.splits prod.splits)

lemma handleClient_no_thread: "\<not> tid < length (threads st) \<Longrightarrow> handleClient tid r fails st = st"
  by (simp add: handleClient_def)

lemma threads_handleClient:
  assumes "tid < length (threads st)"
  shows "threads (handleClient tid r fails st)
           = (threads st)[tid := threads (handleClient tid r fails st) ! tid]"
  using assms
  by (cases "pc (threads st ! tid)")
     (simp_all add: handleClient_at handler_defs disconnect_block_def Let_def
      split: option.splits prod.splits)

lemma own_step_socket:
  assumes "tid < length (threads st)"
  shows "clientSocket (threads (handleClient tid r fails st) ! tid) = clientSocket (threads st ! tid)"
  using assms
  by (cases "pc (threads st ! tid)")
     (simp_all add: handleClient_at handler_defs disconnect_block_def Let_def
      split: option.splits prod.splits)

lemma own_step_plain:
  assumes "tid < length (threads st)" "pc (threads st ! tid) \<noteq> L405" "pc (threads st ! tid) \<noteq> L431"
  shows "clients (handleClient tid r fails st) = clients st"
    and "clientNames (handleClient tid r fails st) = clientNames st"
    and "pc (threads (handleClient tid r fails st) ! tid) = Undefined
         \<or> joined (pc (threads (handleClient tid r fails st) ! tid)) = joined (pc (threads st ! tid))
           \<and> (awaiting_name (pc (threads (handleClient tid r fails st) ! tid))
                \<longrightarrow> awaiting_name (pc (threads st ! tid)))
           \<and> (pc (threads st ! tid) = Finished
                \<longrightarrow> pc (threads (handleClient tid r fails st) ! tid) = Finished)"
  using assms
  by (cases "pc (threads st ! tid)";
      simp add: handleClient_at handler_defs Let_def split: option.splits)+

lemma own_step_store:
  assumes "tid < length (threads st)" "pc (threads st ! tid) = L405"
  shows "clients (handleClient tid r fails st) = clients st"
    and "pc (threads (handleClient tid r fails st) ! tid) = Undefined
         \<or> pc (threads (handleClient tid r fails st) ! tid) = L417
           \<and> clientNames (handleClient tid r fails st)
               = (clientNames st)(clientSocket (threads st ! tid)
                    \<mapsto> clientName (threads (handleClient tid r fails st) ! tid))"
  using assms
  by (simp_all add: handleClient_at handleClient_store_name_def Let_def split: option.splits)

lemma own_step_remove:
  assumes "tid < length (threads st)" "pc (threads st ! tid) = L431"
  shows "pc (threads (handleClient tid r fails st) ! tid) = L448"
    and "clientNames (handleClient tid r fails st)
           = (clientNames st)(clientSocket (threads st ! tid) := None)"
    and "clients (handleClient tid r fails st)
           = (if clientNames st (clientSocket (threads st ! tid)) = None then clients st
              else removeAll (clientSocket (threads st ! tid)) (clients st))"
  using assms
  by (auto simp: handleClient_at handleClient_remove_def disconnect_block_def Let_def
      split: option.splits)

lemma thread_invariant:
  assumes own: "\<And>(st::system) r fails. tid < length (threads st) \<Longrightarrow> P (threads st ! tid)
                  \<Longrightarrow> P (threads (handleClient tid r fails st) ! tid)"
    and "tid < length (threads st)" and "P (threads st ! tid)"
  shows "tid < length (threads (exec sched st)) \<and> P (threads (exec sched st) ! tid)"
proof (rule exec_invariant [where P = "\<lambda>st::system. tid < length (threads st) \<and> P (threads st ! tid)"])
  show "tid < length (threads st) \<and> P (threads st ! tid)"
    using assms(2,3) by simp
next
  fix a and st :: system
  assume h: "tid < length (threads st) \<and> P (threads st ! tid)"
  show "tid < length (threads (step a st)) \<and> P (threads (step a st) ! tid)"
  proof (cases a)
    case (Accept s)
    then show ?thesis using h by (simp add: main_accept_def nth_append)
  next
    case AcceptFails
    then show ?thesis using h by simp
  next
    case (Run tid' r fails)
    then show ?thesis using h own other_thread_handleClient
      by (cases "tid' = tid") simp_all
  qed
qed

lemma named_as_step:
  assumes "tid < length (threads st)" "named_as s n (threads st ! tid)"
  shows "named_as s n (threads (handleClient tid r fails st) ! tid)"
  using assms
  by (cases "pc (threads st ! tid)")
     (simp_all add: named_as_def handleClient_at handler_defs disconnect_block_def Let_def
      split: option.splits prod.splits)

lemma leaving_as_step:
  assumes "tid < length (threads st)" "leaving_as s n (threads st ! tid)"
  shows "leaving_as s n (threads (handleClient tid r fails st) ! tid)"
  using assms
  by (cases "pc (threads st ! tid)")
     (simp_all add: leaving_as_def handleClient_at handler_defs disconnect_block_def Let_def
      split: option.splits prod.splits)

subsection \<open>The sends of a step\<close>

lemma sends_send_loop:
  "(c, bs, f) \<in> set (sends_of (send_loop w fails op m s i cs)) \<Longrightarrow> c \<noteq> s \<and> bs = m @ [NUL] \<and> c \<in> set cs"
  by (induction cs arbitrary: i) (auto simp: sends_of_append split: if_splits)

lemma sends_broadcast:
  "(c, bs, f) \<in> set (sends_of (broadcastMessage w fails m s st)) \<Longrightarrow> c \<noteq> s \<and> bs = m @ [NUL] \<and> c \<in> set (clients st)"
  using sends_send_loop by (fastforce simp: broadcastMessage_def sends_of_append)

lemma new_events_emit [simp]: "trace st' = trace st \<Longrightarrow> new_events st (emit es st') = es"
  by (simp add: new_events_def)

lemma new_events_same [simp]: "trace st' = trace st \<Longrightarrow> new_events st st' = []"
  by (simp add: new_events_def)

lemma new_events_append [simp]: "trace st' = trace st @ es \<Longrightarrow> new_events st st' = es"
  by (simp add: new_events_def)

text \<open>Every \<^verbatim>\<open>send\<close> is made by a step of a handler thread, never to the handle of that
  handler and only to entries of \<^verbatim>\<open>clients\<close>; the bytes are, before the terminator, the name
  the handler holds and \<^verbatim>\<open> has joined the chat.\<close> at line 417, that name and
  \<^verbatim>\<open> has left the chat.\<close> at line 448, and that name, \<^verbatim>\<open>: \<close> and the text of the buffer at
  line 455.\<close>

lemma step_sends:
  "\<forall>(c, bs, f) \<in> set (sends_of (new_events st (step a st))).
     \<exists>tid r fails. a = Run tid r fails \<and> tid < length (threads st)
       \<and> c \<noteq> clientSocket (threads st ! tid) \<and> c \<in> set (clients st)
       \<and> (pc (threads st ! tid) = L417
              \<and> bs = (clientName (threads st ! tid) @ '' has joined the chat.'') @ [NUL]
          \<or> pc (threads st ! tid) = L448
              \<and> bs = (clientName (threads st ! tid) @ '' has left the chat.'') @ [NUL]
          \<or> pc (threads st ! tid) = L455
              \<and> (\<exists>payload. buf_string (buf (threads st ! tid)) = Some payload
                    \<and> bs = (clientName (threads st ! tid) @ '': '' @ payload) @ [NUL]))"
proof (cases a)
  case (Accept s)
  then show ?thesis by (simp add: main_accept_def new_events_def)
next
  case AcceptFails
  then show ?thesis by simp
next
  case (Run tid r fails)
  show ?thesis
  proof (cases "tid < length (threads st)")
    case False
    then show ?thesis using Run by (simp add: handleClient_no_thread)
  next
    case True
    then show ?thesis using Run
      by (cases "pc (threads st ! tid)")
         (auto simp: handleClient_at handler_defs disconnect_block_def Let_def
               split: option.splits prod.splits dest: sends_broadcast)
  qed
qed

subsection \<open>The invariant of the containers\<close>

lemma joined_not_Finished: "joined l \<Longrightarrow> l \<noteq> Finished"
  and awaiting_not_Finished: "awaiting_name l \<Longrightarrow> l \<noteq> Finished"
  and awaiting_not_joined: "awaiting_name l \<Longrightarrow> \<not> joined l"
  by (cases l; simp)+

lemma registry_inv_handleClient:
  assumes inv: "registry_inv st" and tid: "tid < length (threads st)"
    and nu: "pc (threads (handleClient tid r fails st) ! tid) \<noteq> Undefined"
  shows "registry_inv (handleClient tid r fails st)"
proof -
  define st' where "st' = handleClient tid r fails st"
  define T where "T = threads st"
  define t' where "t' = threads st' ! tid"
  define s where "s = clientSocket (T ! tid)"
  have T': "threads st' = T[tid := t']"
    using threads_handleClient [OF tid] by (simp add: st'_def t'_def T_def)
  have S: "clientSocket t' = s"
    using own_step_socket [OF tid] by (simp add: st'_def t'_def T_def s_def)
  have n: "tid < length T" using tid by (simp add: T_def)
  have A: "\<And>i j. i < length T \<Longrightarrow> j < length T \<Longrightarrow> i \<noteq> j \<Longrightarrow> pc (T ! i) \<noteq> Finished
              \<Longrightarrow> pc (T ! j) \<noteq> Finished \<Longrightarrow> clientSocket (T ! i) \<noteq> clientSocket (T ! j)"
    and B: "\<And>x. (x \<in> dom (clientNames st))
              = (\<exists>i<length T. clientSocket (T ! i) = x \<and> joined (pc (T ! i)))"
    and C: "\<And>i. i < length T \<Longrightarrow> joined (pc (T ! i)) \<or> awaiting_name (pc (T ! i))
              \<Longrightarrow> clientSocket (T ! i) \<in> set (clients st)"
    using inv unfolding registry_inv_def T_def by blast+
  consider (store) "pc (T ! tid) = L405" | (remove) "pc (T ! tid) = L431"
    | (plain) "pc (T ! tid) \<noteq> L405" "pc (T ! tid) \<noteq> L431" by blast
  then show ?thesis
  proof cases
    case plain
    have e: "clients st' = clients st" "clientNames st' = clientNames st"
      and c: "joined (pc t') = joined (pc (T ! tid))"
         "awaiting_name (pc t') \<Longrightarrow> awaiting_name (pc (T ! tid))"
         "pc (T ! tid) = Finished \<Longrightarrow> pc t' = Finished"
      using own_step_plain [OF tid, of r fails] plain nu
      by (simp_all add: st'_def t'_def T_def)
    have a: "\<And>i j. i < length T \<Longrightarrow> j < length T \<Longrightarrow> i \<noteq> j \<Longrightarrow> pc (T[tid := t'] ! i) \<noteq> Finished
              \<Longrightarrow> pc (T[tid := t'] ! j) \<noteq> Finished
              \<Longrightarrow> clientSocket (T[tid := t'] ! i) \<noteq> clientSocket (T[tid := t'] ! j)"
      using A S c(3) n by (auto simp: nth_list_update s_def split: if_splits)
    have b: "\<And>x. (\<exists>i<length T. clientSocket (T[tid := t'] ! i) = x \<and> joined (pc (T[tid := t'] ! i)))
               = (\<exists>i<length T. clientSocket (T ! i) = x \<and> joined (pc (T ! i)))"
      using S c(1) n by (auto simp: nth_list_update s_def split: if_splits)
    have cc: "\<And>i. i < length T \<Longrightarrow> joined (pc (T[tid := t'] ! i)) \<or> awaiting_name (pc (T[tid := t'] ! i))
              \<Longrightarrow> clientSocket (T[tid := t'] ! i) \<in> set (clients st)"
      using C S c(1,2) n by (auto simp: nth_list_update s_def split: if_splits)
    show ?thesis
      unfolding registry_inv_def st'_def [symmetric] T' e
      using a b cc B by simp
  next
    case store
    have e: "clients st' = clients st"
      "clientNames st' = (clientNames st)(s \<mapsto> clientName t')"
      and c: "pc t' = L417"
      using own_step_store [OF tid, of r fails] store nu
      by (simp_all add: st'_def t'_def T_def s_def)
    have a: "\<And>i j. i < length T \<Longrightarrow> j < length T \<Longrightarrow> i \<noteq> j \<Longrightarrow> pc (T[tid := t'] ! i) \<noteq> Finished
              \<Longrightarrow> pc (T[tid := t'] ! j) \<noteq> Finished
              \<Longrightarrow> clientSocket (T[tid := t'] ! i) \<noteq> clientSocket (T[tid := t'] ! j)"
      using A S store n by (auto simp: nth_list_update s_def split: if_splits)
    have b: "\<And>x. (\<exists>i<length T. clientSocket (T[tid := t'] ! i) = x \<and> joined (pc (T[tid := t'] ! i)))
               = (x = s \<or> (\<exists>i<length T. clientSocket (T ! i) = x \<and> joined (pc (T ! i))))"
      using S c store n by (auto simp: nth_list_update s_def split: if_splits)
    have cc: "\<And>i. i < length T \<Longrightarrow> joined (pc (T[tid := t'] ! i)) \<or> awaiting_name (pc (T[tid := t'] ! i))
              \<Longrightarrow> clientSocket (T[tid := t'] ! i) \<in> set (clients st)"
      using C S store n by (auto simp: nth_list_update s_def split: if_splits)
    show ?thesis
      unfolding registry_inv_def st'_def [symmetric] T' e
      using a b cc B by auto
  next
    case remove
    have e: "clientNames st' = (clientNames st)(s := None)"
      "clients st' = (if clientNames st s = None then clients st else removeAll s (clients st))"
      and c: "pc t' = L448"
      using own_step_remove [OF tid, of r fails] remove
      by (simp_all add: st'_def t'_def T_def s_def)
    have other: "\<And>i. i < length T \<Longrightarrow> i \<noteq> tid \<Longrightarrow> pc (T ! i) \<noteq> Finished
                   \<Longrightarrow> clientSocket (T ! i) \<noteq> s"
      using A [OF _ n] remove by (auto simp: s_def)
    have a: "\<And>i j. i < length T \<Longrightarrow> j < length T \<Longrightarrow> i \<noteq> j \<Longrightarrow> pc (T[tid := t'] ! i) \<noteq> Finished
              \<Longrightarrow> pc (T[tid := t'] ! j) \<noteq> Finished
              \<Longrightarrow> clientSocket (T[tid := t'] ! i) \<noteq> clientSocket (T[tid := t'] ! j)"
      using A S remove n by (auto simp: nth_list_update s_def split: if_splits)
    have b: "(\<exists>i<length T. clientSocket (T[tid := t'] ! i) = x \<and> joined (pc (T[tid := t'] ! i)))
               = (x \<noteq> s \<and> (\<exists>i<length T. clientSocket (T ! i) = x \<and> joined (pc (T ! i))))"
      (is "?l = ?r") for x
    proof
      assume ?l
      then obtain i where i: "i < length T" "clientSocket (T[tid := t'] ! i) = x"
        "joined (pc (T[tid := t'] ! i))" by blast
      then have ne: "i \<noteq> tid" using c n by auto
      then have "clientSocket (T ! i) = x" "joined (pc (T ! i))" using i by simp_all
      then show ?r using other [OF i(1) ne] i(1) joined_not_Finished by blast
    next
      assume r: ?r
      then obtain i where i: "i < length T" "clientSocket (T ! i) = x" "joined (pc (T ! i))"
        by blast
      then have "i \<noteq> tid" using r by (auto simp: s_def)
      then show ?l using i by auto
    qed
    have cc: "\<And>i. i < length T \<Longrightarrow> joined (pc (T[tid := t'] ! i)) \<or> awaiting_name (pc (T[tid := t'] ! i))
              \<Longrightarrow> clientSocket (T[tid := t'] ! i) \<in> set (clients st) - {s}"
      using C c n other joined_not_Finished awaiting_not_Finished
      by (auto simp: nth_list_update split: if_splits)
    have cl: "set (clients st) - {s} \<subseteq> set (clients st')"
      by (auto simp: e)
    have ccc: "\<And>i. i < length T \<Longrightarrow> joined (pc (T[tid := t'] ! i)) \<or> awaiting_name (pc (T[tid := t'] ! i))
              \<Longrightarrow> clientSocket (T[tid := t'] ! i) \<in> set (clients st')"
      using cc cl by blast
    have bb: "\<And>x. (x \<in> dom (clientNames st'))
               = (\<exists>i<length T. clientSocket (T[tid := t'] ! i) = x \<and> joined (pc (T[tid := t'] ! i)))"
      unfolding b using B by (auto simp: e(1))
    show ?thesis
      unfolding registry_inv_def st'_def [symmetric] T'
      using a bb ccc by simp
  qed
qed

lemma held_iff:
  "(s \<in> set (held st))
     = (\<exists>i<length (threads st). clientSocket (threads st ! i) = s \<and> pc (threads st ! i) \<noteq> Finished)"
  by (auto simp: held_def in_set_conv_nth)

lemma registry_inv_accept:
  assumes inv: "registry_inv st" and fresh: "s \<notin> set (held st)"
  shows "registry_inv (main_accept s st)"
proof (cases "s \<in> opened st")
  case True
  then show ?thesis using inv by (simp add: main_accept_def)
next
  case False
  have f: "\<And>i. i < length (threads st) \<Longrightarrow> pc (threads st ! i) \<noteq> Finished
             \<Longrightarrow> clientSocket (threads st ! i) \<noteq> s"
    using fresh by (auto simp: held_iff)
  show ?thesis
    using inv f False joined_not_Finished
    unfolding registry_inv_def main_accept_def
    by (auto simp: nth_append less_Suc_eq)
qed

lemma undefined_stays:
  assumes "i < length (threads st)" "pc (threads st ! i) = Undefined"
  shows "i < length (threads (step a st)) \<and> pc (threads (step a st) ! i) = Undefined"
proof (cases a)
  case (Accept s)
  then show ?thesis using assms by (simp add: main_accept_def nth_append)
next
  case AcceptFails
  then show ?thesis using assms by simp
next
  case (Run tid r fails)
  show ?thesis
  proof (cases "tid = i")
    case True
    then have "handleClient tid r fails st = st"
      using assms handleClient_at(11) by blast
    then show ?thesis using assms Run by simp
  next
    case False
    then show ?thesis using assms Run other_thread_handleClient [of tid i] by simp
  qed
qed

lemma no_undefined_step: "no_undefined (step a st) \<Longrightarrow> no_undefined st"
  unfolding no_undefined_def list_all_length using undefined_stays by blast

lemma no_undefined_exec: "no_undefined (exec sched st) \<Longrightarrow> no_undefined st"
  by (induction sched arbitrary: st) (auto dest: no_undefined_step)

lemma registry_inv_step:
  assumes "registry_inv st" "fresh_accepts [a] st" "no_undefined (step a st)"
  shows "registry_inv (step a st)"
proof (cases a)
  case (Accept s)
  then show ?thesis using assms registry_inv_accept by simp
next
  case AcceptFails
  then show ?thesis using assms by (simp add: registry_inv_def)
next
  case (Run tid r fails)
  show ?thesis
  proof (cases "tid < length (threads st)")
    case True
    then have "pc (threads (handleClient tid r fails st) ! tid) \<noteq> Undefined"
      using assms(3) Run by (simp add: no_undefined_def list_all_length)
    then show ?thesis using registry_inv_handleClient assms(1) True Run by simp
  next
    case False
    then show ?thesis using assms(1) Run by (simp add: handleClient_no_thread)
  qed
qed

lemma fresh_accepts_Cons:
  "fresh_accepts (a # as) st = (fresh_accepts [a] st \<and> fresh_accepts as (step a st))"
  by (cases a) simp_all

lemma registry_inv_exec:
  "registry_inv st \<Longrightarrow> fresh_accepts sched st \<Longrightarrow> no_undefined (exec sched st)
     \<Longrightarrow> registry_inv (exec sched st)"
proof (induction sched arbitrary: st)
  case Nil
  then show ?case by simp
next
  case (Cons a sched)
  have f: "fresh_accepts [a] st" "fresh_accepts sched (step a st)"
    using Cons.prems(2) fresh_accepts_Cons by blast+
  have u: "no_undefined (exec sched (step a st))"
    using Cons.prems(3) by simp
  then have "no_undefined (step a st)"
    by (rule no_undefined_exec)
  then have "registry_inv (step a st)"
    using Cons.prems(1) f(1) by (rule registry_inv_step [rotated 2])
  then have "registry_inv (exec sched (step a st))"
    using f(2) u by (rule Cons.IH)
  then show ?case by simp
qed

lemma registry_inv_init: "registry_inv init"
  by (simp add: registry_inv_def init_def)

lemma distinct_map_filter:
  assumes "\<And>i j. i < length xs \<Longrightarrow> j < length xs \<Longrightarrow> i \<noteq> j \<Longrightarrow> P (xs ! i) \<Longrightarrow> P (xs ! j)
             \<Longrightarrow> f (xs ! i) \<noteq> f (xs ! j)"
  shows "distinct (map f (filter P xs))"
  using assms
proof (induction xs)
  case Nil
  then show ?case by simp
next
  case (Cons x xs)
  have tl: "distinct (map f (filter P xs))"
  proof (rule Cons.IH)
    fix i j
    assume "i < length xs" "j < length xs" "i \<noteq> j" "P (xs ! i)" "P (xs ! j)"
    then show "f (xs ! i) \<noteq> f (xs ! j)"
      using Cons.prems [of "Suc i" "Suc j"] by simp
  qed
  have hd: "f x \<noteq> f y" if px: "P x" and y: "y \<in> set xs" and py: "P y" for y
  proof -
    obtain j where j: "j < length xs" "xs ! j = y"
      using y by (auto simp: in_set_conv_nth)
    have "f ((x # xs) ! 0) \<noteq> f ((x # xs) ! Suc j)"
      by (rule Cons.prems) (use j px py in simp_all)
    then show ?thesis using j by simp
  qed
  show ?case using tl hd by auto
qed

subsection \<open>The events of one thread\<close>










subsection \<open>The text of the buffer\<close>

lemma buf_string_terminated:
  "d \<noteq> [] \<Longrightarrow> length d \<le> 4096 \<Longrightarrow> NUL \<in> set d \<or> length d < 4096
     \<Longrightarrow> buf_string d = Some (takeWhile (\<lambda>c. c \<noteq> NUL) d)"
  using length_takeWhile_le [of "\<lambda>c. c \<noteq> NUL" d]
  by (auto simp: buf_string_def)

subsection \<open>Entries of \<^verbatim>\<open>clients\<close> that nobody removes\<close>

lemma finished_stays:
  assumes "tid < length (threads st)" "pc (threads st ! tid) = Finished"
  shows "pc (threads (handleClient tid r fails st) ! tid) = Finished"
  using assms by (simp add: handleClient_at)

text \<open>The only step that takes a handle out of \<open>clients\<close>.\<close>

lemma clients_step:
  assumes "s \<in> set (clients st)"
  shows "s \<in> set (clients (step a st))
         \<or> (\<exists>tid r fails. a = Run tid r fails \<and> tid < length (threads st)
               \<and> pc (threads st ! tid) = L431 \<and> clientSocket (threads st ! tid) = s
               \<and> clientNames st s \<noteq> None)"
proof (cases a)
  case (Accept s')
  then show ?thesis using assms by (simp add: main_accept_def)
next
  case AcceptFails
  then show ?thesis using assms by simp
next
  case (Run tid r fails)
  show ?thesis
  proof (cases "tid < length (threads st)")
    case False
    then show ?thesis using assms Run by (simp add: handleClient_no_thread)
  next
    case True
    show ?thesis
    proof (cases "pc (threads st ! tid) = L431")
      case True
      then show ?thesis
        using assms Run own_step_remove(3) [OF \<open>tid < length (threads st)\<close> True, of r fails]
        by (auto simp: \<open>tid < length (threads st)\<close>)
    next
      case False
      show ?thesis
      proof (cases "pc (threads st ! tid) = L405")
        case True
        then show ?thesis
          using assms Run own_step_store(1) [OF \<open>tid < length (threads st)\<close> True] by simp
      next
        case n: False
        show ?thesis
          using assms Run own_step_plain(1) [OF \<open>tid < length (threads st)\<close> n False] by simp
      qed
    qed
  qed
qed

lemma opened_handleClient: "opened (handleClient tid r fails st) \<subseteq> opened st"
proof (cases "tid < length (threads st)")
  case False
  then show ?thesis by (simp add: handleClient_no_thread)
next
  case True
  then show ?thesis
    by (cases "pc (threads st ! tid)")
       (auto simp: handleClient_at handler_defs disconnect_block_def Let_def
          split: option.splits prod.splits if_splits)
qed

lemma held_handleClient: "set (held (handleClient tid r fails st)) \<subseteq> set (held st)"
proof (cases "tid < length (threads st)")
  case False
  then show ?thesis by (simp add: handleClient_no_thread)
next
  case True
  show ?thesis
  proof
    fix x
    assume "x \<in> set (held (handleClient tid r fails st))"
    then obtain i where i: "i < length (threads st)"
      "clientSocket (threads (handleClient tid r fails st) ! i) = x"
      "pc (threads (handleClient tid r fails st) ! i) \<noteq> Finished"
      by (auto simp: held_iff)
    have "clientSocket (threads st ! i) = x \<and> pc (threads st ! i) \<noteq> Finished"
    proof (cases "i = tid")
      case True
      then show ?thesis
        using i own_step_socket [OF \<open>tid < length (threads st)\<close>, of r fails]
          finished_stays [OF \<open>tid < length (threads st)\<close>, of r fails] by auto
    next
      case False
      then show ?thesis using i other_thread_handleClient [of tid i r fails st] by simp
    qed
    then show "x \<in> set (held st)" using i(1) by (auto simp: held_iff)
  qed
qed

lemma stale_step:
  assumes "stale s st" "a \<noteq> Accept s"
  shows "stale s (step a st)"
proof (cases a)
  case (Accept s')
  then have "s' \<noteq> s" using assms(2) by blast
  then show ?thesis using assms(1) Accept
    by (auto simp: stale_def main_accept_def held_def)
next
  case AcceptFails
  then show ?thesis using assms(1) by (simp add: stale_def held_def)
next
  case (Run tid r fails)
  have "\<not> (tid < length (threads st) \<and> pc (threads st ! tid) = L431
            \<and> clientSocket (threads st ! tid) = s)"
    using assms(1) by (auto simp: stale_def held_iff)
  then have "s \<in> set (clients (step a st))"
    using clients_step [of s st a] assms(1) Run by (auto simp: stale_def)
  then show ?thesis
    using assms(1) Run opened_handleClient [of tid r fails st] held_handleClient [of tid r fails st]
    by (auto simp: stale_def)
qed

lemma stale_exec: "stale s st \<Longrightarrow> Accept s \<notin> set sched \<Longrightarrow> stale s (exec sched st)"
proof (induction sched arbitrary: st)
  case Nil
  then show ?case by simp
next
  case (Cons a sched)
  then have "stale s (step a st)" using stale_step by auto
  then show ?case using Cons by simp
qed

lemma send_loop_to_closed:
  "s \<in> set cs \<Longrightarrow> s \<notin> op \<Longrightarrow> s \<noteq> sender
     \<Longrightarrow> (s, m @ [NUL], True) \<in> set (sends_of (send_loop w fails op m sender i cs))"
  by (induction cs arbitrary: i) (auto simp: sends_of_append)

section \<open>The claims\<close>

text \<open>
  C1. The claim: \<^verbatim>\<open>broadcastMessage\<close> reads the targets under the mutex and writes to the
  sockets after releasing it, so that no \<^verbatim>\<open>send\<close> runs while the mutex is held. The source
  does the opposite: the \<^verbatim>\<open>lock_guard\<close> of line 384 lives until the function returns, and
  the loop of lines 386-393 sends inside it. In the run below the handler of socket 5
  sends its join notice to socket 7 while it holds the mutex.
\<close>

theorem send_outside_lock_counterexample:
  "\<not> sends_outside_lock None
       (trace (exec [Accept 5, Accept 7, Run 0 (Recv_bytes (''Al'' @ [NUL])) [],
                     Run 0 Recv_failed [], Run 0 Recv_failed []] init))"
  by (simp add: model_defs)

text \<open>
  C1, as the source has it: in every run of the server, every \<^verbatim>\<open>send\<close> is made by the
  thread that holds \<^verbatim>\<open>clients_mutex\<close> at that moment, and the mutex is free after every
  step; every call of \<^verbatim>\<open>broadcastMessage\<close> takes the mutex first, sends to the targets it
  finds in \<^verbatim>\<open>clients\<close> itself (there is no copy) and releases the mutex last.
\<close>

theorem sends_happen_inside_lock:
  "sends_inside_lock None (trace (exec sched init))
   \<and> holder None (trace (exec sched init)) = None
   \<and> broadcastMessage w fails message sender st =
       Lock w # send_loop w fails (opened st) message sender 0 (clients st) @ [Unlock w]
   \<and> sends_inside_lock (Some w) (send_loop w fails (opened st) message sender 0 (clients st))"
proof -
  obtain es where "trace (exec sched init) = trace init @ es" "balanced es"
    using exec_trace by blast
  then have "balanced (trace (exec sched init))"
    by (simp add: init_def)
  then show ?thesis
    by (simp add: balanced_def broadcastMessage_def inside_send_loop)
qed

theorem sends_happen_inside_lock_witness:
  "sends_inside_lock None
       (trace (exec [Accept 5, Accept 7, Run 0 (Recv_bytes (''Al'' @ [NUL])) [],
                     Run 0 Recv_failed [], Run 0 Recv_failed []] init))
   \<and> sends_of (trace (exec [Accept 5, Accept 7, Run 0 (Recv_bytes (''Al'' @ [NUL])) [],
                     Run 0 Recv_failed [], Run 0 Recv_failed []] init))
       = [(7, ''Al has joined the chat.'' @ [NUL], False)]"
  using sends_happen_inside_lock
    [of "[Accept 5, Accept 7, Run 0 (Recv_bytes (''Al'' @ [NUL])) [],
          Run 0 Recv_failed [], Run 0 Recv_failed []]"]
  by (simp add: model_defs)

text \<open>
  C2. The claim: in every reachable state a connection id is in the collection of
  broadcast targets exactly when its handler has completed the handshake and has not
  observed the disconnection, and never without a name. In the source the listener puts
  the handle into \<^verbatim>\<open>clients\<close> at line 524, before the handler thread exists. After
  \<^verbatim>\<open>accept\<close> has returned handle 5, the handle is a broadcast target, its handler (the only
  thread) is at line 403 and has not read a name, and the handle has no name.
\<close>

theorem target_before_handshake_counterexample:
  "clients (exec [Accept 5] init) = [5]
   \<and> map clientSocket (threads (exec [Accept 5] init)) = [5]
   \<and> map pc (threads (exec [Accept 5] init)) = [L403]
   \<and> \<not> joined L403
   \<and> clientNames (exec [Accept 5] init) 5 = None"
  by (simp add: model_defs)

text \<open>
  C2, as the source has it. Take any run in which \<^verbatim>\<open>accept\<close> never returns a handle that a
  running handler thread still holds, and that has not reached undefined behaviour. In
  the state it reaches, a handle has an entry in \<^verbatim>\<open>clientNames\<close> exactly when a handler that
  holds it has stored its name and has not yet run the removal block; every handler that
  has not yet run the removal block finds its handle in \<^verbatim>\<open>clients\<close>, also while it still
  waits for the name; so every handle with a name is a broadcast target; and the running
  handlers hold different handles.
\<close>

theorem names_follow_handshake:
  assumes "fresh_accepts sched init" and "no_undefined (exec sched init)"
  shows "(\<forall>s. (s \<in> dom (clientNames (exec sched init)))
            = (\<exists>t \<in> set (threads (exec sched init)). clientSocket t = s \<and> joined (pc t)))
       \<and> (\<forall>t \<in> set (threads (exec sched init)).
            joined (pc t) \<or> awaiting_name (pc t) \<longrightarrow> clientSocket t \<in> set (clients (exec sched init)))
       \<and> dom (clientNames (exec sched init)) \<subseteq> set (clients (exec sched init))
       \<and> distinct (held (exec sched init))"
proof -
  define st where "st = exec sched init"
  have inv: "registry_inv st"
    unfolding st_def using assms registry_inv_exec registry_inv_init by blast
  have B: "(s \<in> dom (clientNames st))
            = (\<exists>i<length (threads st). clientSocket (threads st ! i) = s \<and> joined (pc (threads st ! i)))" for s
    using inv unfolding registry_inv_def by blast
  have b: "(s \<in> dom (clientNames st))
            = (\<exists>t \<in> set (threads st). clientSocket t = s \<and> joined (pc t))" for s
    unfolding B by (metis in_set_conv_nth)
  have c: "clientSocket t \<in> set (clients st)"
    if "t \<in> set (threads st)" and "joined (pc t) \<or> awaiting_name (pc t)" for t
    using inv that unfolding registry_inv_def by (auto simp: in_set_conv_nth)
  have d: "dom (clientNames st) \<subseteq> set (clients st)"
  proof
    fix s
    assume "s \<in> dom (clientNames st)"
    then obtain t where "t \<in> set (threads st)" "clientSocket t = s" "joined (pc t)"
      unfolding b by blast
    then show "s \<in> set (clients st)"
      using c by blast
  qed
  have a: "distinct (held st)"
    unfolding held_def
  proof (rule distinct_map_filter)
    fix i j
    assume "i < length (threads st)" "j < length (threads st)" "i \<noteq> j"
      "pc (threads st ! i) \<noteq> Finished" "pc (threads st ! j) \<noteq> Finished"
    then show "clientSocket (threads st ! i) \<noteq> clientSocket (threads st ! j)"
      using inv unfolding registry_inv_def by blast
  qed
  show ?thesis
    unfolding st_def [symmetric] using a b c d by simp
qed

text \<open>The run of the witness: handle 5 is accepted and its first read fails; handle 5 is
  given out again, handle 7 is accepted; the second holder of 5 sends the name Bob, stores
  it and broadcasts the join notice; the holder of 7 has sent its name, not stored yet.\<close>

theorem names_follow_handshake_witness:
  "fresh_accepts [Accept 5, Run 0 Recv_failed [], Accept 5, Accept 7,
      Run 1 (Recv_bytes (''Bob'' @ [NUL])) [], Run 1 Recv_failed [], Run 1 Recv_failed [],
      Run 2 (Recv_bytes (''Al'' @ [NUL])) []] init
   \<and> dom (clientNames (exec [Accept 5, Run 0 Recv_failed [], Accept 5, Accept 7,
      Run 1 (Recv_bytes (''Bob'' @ [NUL])) [], Run 1 Recv_failed [], Run 1 Recv_failed [],
      Run 2 (Recv_bytes (''Al'' @ [NUL])) []] init)) = {5}
   \<and> clients (exec [Accept 5, Run 0 Recv_failed [], Accept 5, Accept 7,
      Run 1 (Recv_bytes (''Bob'' @ [NUL])) [], Run 1 Recv_failed [], Run 1 Recv_failed [],
      Run 2 (Recv_bytes (''Al'' @ [NUL])) []] init) = [5, 5, 7]
   \<and> map pc (threads (exec [Accept 5, Run 0 Recv_failed [], Accept 5, Accept 7,
      Run 1 (Recv_bytes (''Bob'' @ [NUL])) [], Run 1 Recv_failed [], Run 1 Recv_failed [],
      Run 2 (Recv_bytes (''Al'' @ [NUL])) []] init)) = [Finished, L427, L405]"
  using names_follow_handshake
    [of "[Accept 5, Run 0 Recv_failed [], Accept 5, Accept 7,
      Run 1 (Recv_bytes (''Bob'' @ [NUL])) [], Run 1 Recv_failed [], Run 1 Recv_failed [],
      Run 2 (Recv_bytes (''Al'' @ [NUL])) []]"]
  by (simp add: model_defs held_def no_undefined_def)

text \<open>
  C3. The claim: every line the server broadcasts is the name of a client and \<^verbatim>\<open>: \<close> and
  a message received from that client, or that name and \<^verbatim>\<open> has joined the chat.\<close> after that
  client's handshake, or that name and \<^verbatim>\<open> has left the chat.\<close> after that client's
  disconnection, and it is not delivered to the connection it comes from. The source
  builds the three texts and skips the sender's handle (see \<open>step_sends\<close>), but the name of
  the leave notice is read back from \<^verbatim>\<open>clientNames\<close> at line 434, by the handle. In the run
  in which handle 5 is closed twice (lines 450 and 468), thread 2 has read the name Bob
  and holds handle 5, and so does thread 3, which has stored the name Cy over Bob's entry
  and is at line 417, connected. The read of thread 2 fails; its removal block finds the
  entry Cy, takes handle 5 out of both containers, and thread 2 broadcasts
  \<^verbatim>\<open>Cy has left the chat.\<close> Cy has not disconnected, and Bob's departure is never announced.
\<close>

theorem leave_notice_names_other_client:
  "buf_string (buf (threads (exec double_close_run_1 init) ! 2)) = Some ''Bob''
   \<and> map clientSocket (threads (exec (double_close_run_1 @ double_close_run_2) init)) = [7, 5, 5, 5]
   \<and> map pc (threads (exec (double_close_run_1 @ double_close_run_2) init))
       = [L403, Finished, L427, L417]
   \<and> map clientName (threads (exec (double_close_run_1 @ double_close_run_2) init))
       = [[], ''Ann'', ''Bob'', ''Cy'']
   \<and> clientNames (exec (double_close_run_1 @ double_close_run_2) init) 5 = Some ''Cy''
   \<and> map pc (threads (exec (double_close_run_1 @ double_close_run_2
                              @ [Run 2 Recv_failed [], Run 2 Recv_failed []]) init))
       = [L403, Finished, L448, L417]
   \<and> clients (exec (double_close_run_1 @ double_close_run_2
                              @ [Run 2 Recv_failed [], Run 2 Recv_failed []]) init) = [7]
   \<and> clientNames (exec (double_close_run_1 @ double_close_run_2
                              @ [Run 2 Recv_failed [], Run 2 Recv_failed []]) init) 5 = None
   \<and> sends_of (new_events
        (exec (double_close_run_1 @ double_close_run_2
                 @ [Run 2 Recv_failed [], Run 2 Recv_failed []]) init)
        (step (Run 2 Recv_failed [])
          (exec (double_close_run_1 @ double_close_run_2
                   @ [Run 2 Recv_failed [], Run 2 Recv_failed []]) init)))
      = [(7, ''Cy has left the chat.'' @ [NUL], False)]"
  by (simp add: double_close_run_1_def double_close_run_2_def model_defs new_events_def)

text \<open>
  C4. In \<^verbatim>\<open>broadcastMessage\<close> the deliveries are independent. Whatever sends fail, there is
  one \<^verbatim>\<open>send\<close> for every entry of \<^verbatim>\<open>clients\<close> other than the sender, in the order of the
  vector; every failed \<^verbatim>\<open>send\<close> is followed by its log line; the function returns with the
  mutex released; and the caller goes on as if nothing had failed: the threads and the
  two containers after a step of a handler are the same as when no \<^verbatim>\<open>send\<close> fails.
\<close>

theorem broadcast_failures_do_not_abort:
  "map fst (sends_of (broadcastMessage w fails message sender st))
     = filter (\<lambda>c. c \<noteq> sender) (clients st)
   \<and> failures_logged (broadcastMessage w fails message sender st)
   \<and> holder None (broadcastMessage w fails message sender st) = None
   \<and> threads (handleClient tid r fails st) = threads (handleClient tid r [] st)
   \<and> registry (handleClient tid r fails st) = registry (handleClient tid r [] st)"
proof (intro conjI)
  show "map fst (sends_of (broadcastMessage w fails message sender st))
          = filter (\<lambda>c. c \<noteq> sender) (clients st)"
    by (simp add: broadcastMessage_def sends_of_append targets_send_loop)
  show "failures_logged (broadcastMessage w fails message sender st)"
    by (simp add: broadcastMessage_def failures_logged_send_loop)
  show "holder None (broadcastMessage w fails message sender st) = None"
    by (simp add: broadcastMessage_def holder_append holder_send_loop)
  show "threads (handleClient tid r fails st) = threads (handleClient tid r [] st)"
    by (simp add: handleClient_def Let_def handler_defs split: pc.splits option.splits prod.splits)
  show "registry (handleClient tid r fails st) = registry (handleClient tid r [] st)"
    by (simp add: handleClient_def Let_def handler_defs registry_def
        split: pc.splits option.splits prod.splits)
qed

theorem broadcast_failures_do_not_abort_witness:
  "sends_of (broadcastMessage (Handler 1) [0] ''hi'' 2
       (init\<lparr>clients := [1, 2, 3, 4], opened := {1, 2, 3}\<rparr>))
     = [(1, ''hi'' @ [NUL], True), (3, ''hi'' @ [NUL], False), (4, ''hi'' @ [NUL], True)]
   \<and> failures_logged (broadcastMessage (Handler 1) [0] ''hi'' 2
       (init\<lparr>clients := [1, 2, 3, 4], opened := {1, 2, 3}\<rparr>))"
  using broadcast_failures_do_not_abort
    [of "Handler 1" "[0]" "''hi''" 2 "init\<lparr>clients := [1, 2, 3, 4], opened := {1, 2, 3}\<rparr>"]
  by (simp add: model_defs)




text \<open>
  C6. The removal block of the disconnect branch (lines 430-444) is idempotent. For a
  handle that has no entry in \<^verbatim>\<open>clientNames\<close> it changes neither container, nor anything
  else of the state but the trace, where it leaves the line \<^verbatim>\<open>possibly already removed\<close>,
  and the handler keeps the name it held. Running the block twice leaves the two containers
  as running it once does.
\<close>

theorem remove_is_idempotent:
  "(clientNames st s = None \<longrightarrow>
      registry (snd (disconnect_block w s name st)) = registry st
      \<and> opened (snd (disconnect_block w s name st)) = opened st
      \<and> threads (snd (disconnect_block w s name st)) = threads st
      \<and> trace (snd (disconnect_block w s name st)) = trace st @ [Lock w, Log w NotFound, Unlock w]
      \<and> fst (disconnect_block w s name st) = name)
   \<and> clientNames (snd (disconnect_block w s name st)) s = None
   \<and> registry (snd (disconnect_block w' s name' (snd (disconnect_block w s name st))))
       = registry (snd (disconnect_block w s name st))"
  by (auto simp: disconnect_block_def registry_def split: option.splits)

theorem remove_is_idempotent_witness:
  "clientNames (exec [Accept 5, Accept 7] init) 5 = None
   \<and> registry (snd (disconnect_block (Handler 0) 5 [] (exec [Accept 5, Accept 7] init)))
       = registry (exec [Accept 5, Accept 7] init)
   \<and> clients (exec [Accept 5, Accept 7] init) = [5, 7]"
  using remove_is_idempotent [of "exec [Accept 5, Accept 7] init" 5 "Handler 0" "[]"]
  by (simp add: model_defs)

text \<open>
  C7. A handler has read its name \<open>n\<close> (it is at line 405) and later finds its read failed
  (it is at line 431). It runs the removal block: when the block finds an entry for the
  handle in \<^verbatim>\<open>clientNames\<close>, it takes the handle out of \<^verbatim>\<open>clients\<close> (every occurrence) and the
  entry out of \<^verbatim>\<open>clientNames\<close>, so that the handle is in neither container afterwards; when
  the entry is gone already it changes neither. When the handler gets to line 448,
  whatever the other threads have done in between, it broadcasts a leave notice to every
  entry of \<^verbatim>\<open>clients\<close> but its own socket. The name in the notice is the one the handler
  holds: the entry of \<^verbatim>\<open>clientNames\<close> when the removal block found one, and the name \<open>n\<close> of
  the handshake when the entry was gone.
\<close>

theorem leave_notice_carries_held_name:
  fixes st0 :: system and tid :: nat and sched0 sched1 :: "action list"
    and r0 r1 r2 :: recv_result and fails0 fails1 fails2 :: "nat list"
  defines "st1 \<equiv> exec sched0 (handleClient tid r0 fails0 st0)"
  defines "st2 \<equiv> exec sched1 (handleClient tid r1 fails1 st1)"
  defines "s \<equiv> clientSocket (threads st0 ! tid)"
  assumes "tid < length (threads st0)"
    and "pc (threads st0 ! tid) = L405"
    and "buf_string (buf (threads st0 ! tid)) = Some n"
    and "pc (threads st1 ! tid) = L431"
    and "pc (threads st2 ! tid) = L448"
  shows "trace (handleClient tid r2 fails2 st2)
           = trace st2 @ broadcastMessage (Handler tid) fails2
               ((case clientNames st1 s of None \<Rightarrow> n | Some m \<Rightarrow> m) @ '' has left the chat.'') s st2
         \<and> map fst (sends_of (new_events st2 (handleClient tid r2 fails2 st2)))
             = filter (\<lambda>c. c \<noteq> s) (clients st2)
         \<and> pc (threads (handleClient tid r2 fails2 st2) ! tid) = L450
         \<and> clientNames (handleClient tid r1 fails1 st1) s = None
         \<and> clientNames (handleClient tid r1 fails1 st1) = (clientNames st1)(s := None)
         \<and> clients (handleClient tid r1 fails1 st1)
             = (if clientNames st1 s = None then clients st1 else removeAll s (clients st1))
         \<and> (clientNames st1 s \<noteq> None
              \<longrightarrow> s \<notin> set (clients (handleClient tid r1 fails1 st1)))"
proof -
  define name where "name = (case clientNames st1 s of None \<Rightarrow> n | Some m \<Rightarrow> m)"
  let ?a = "handleClient tid r0 fails0 st0"
  have a: "tid < length (threads ?a)" "named_as s n (threads ?a ! tid)"
    using assms(4,5,6)
    by (simp_all add: handleClient_at handleClient_store_name_def named_as_def Let_def s_def)
  have b: "tid < length (threads st1) \<and> named_as s n (threads st1 ! tid)"
    unfolding st1_def using a named_as_step by (intro thread_invariant) simp_all
  then have b': "clientSocket (threads st1 ! tid) = s" "clientName (threads st1 ! tid) = n"
    using assms(7) by (simp_all add: named_as_def)
  let ?c = "handleClient tid r1 fails1 st1"
  have c: "tid < length (threads ?c)" "leaving_as s name (threads ?c ! tid)" "clientNames ?c s = None"
    using b b' assms(7)
    by (simp_all add: handleClient_at handleClient_remove_def disconnect_block_def leaving_as_def
        Let_def name_def split: option.splits)
  have d: "tid < length (threads st2) \<and> leaving_as s name (threads st2 ! tid)"
    unfolding st2_def using c leaving_as_step by (intro thread_invariant) simp_all
  then have d': "clientSocket (threads st2 ! tid) = s" "clientName (threads st2 ! tid) = name"
    using assms(8) by (simp_all add: leaving_as_def)
  have e: "trace (handleClient tid r2 fails2 st2)
           = trace st2 @ broadcastMessage (Handler tid) fails2 (name @ '' has left the chat.'') s st2"
    "pc (threads (handleClient tid r2 fails2 st2) ! tid) = L450"
    using d d' assms(8) by (simp_all add: handleClient_at handleClient_leave_def Let_def)
  have f: "map fst (sends_of (new_events st2 (handleClient tid r2 fails2 st2)))
             = filter (\<lambda>c. c \<noteq> s) (clients st2)"
    unfolding new_events_append [OF e(1)]
    by (simp add: broadcastMessage_def sends_of_append targets_send_loop)
  have g: "clientNames ?c = (clientNames st1)(s := None)"
    "clients ?c = (if clientNames st1 s = None then clients st1 else removeAll s (clients st1))"
    using own_step_remove(2,3) [of tid st1 r1 fails1] b b' assms(7) by simp_all
  then have h: "clientNames st1 s \<noteq> None \<longrightarrow> s \<notin> set (clients ?c)"
    by simp
  show ?thesis
    using e f c(3) g h unfolding name_def by simp
qed

text \<open>Two runs. In the first, Bob on handle 5 and a silent connection on handle 7: Bob's
  read fails, the removal block finds the entry and takes handle 5 out of both
  containers, and the notice goes to handle 7. The second is the run in which a handle is
  closed twice: when the read of thread 2 fails, thread 3 has erased the entry of handle
  5, and the notice of thread 2 still says Bob.\<close>

theorem leave_notice_carries_held_name_witness:
  "clients (exec [Accept 7, Accept 5, Run 1 (Recv_bytes (''Bob'' @ [NUL])) [],
                  Run 1 Recv_failed [], Run 1 Recv_failed [], Run 1 Recv_failed []] init) = [7, 5]
   \<and> clientNames (exec [Accept 7, Accept 5, Run 1 (Recv_bytes (''Bob'' @ [NUL])) [],
                  Run 1 Recv_failed [], Run 1 Recv_failed [], Run 1 Recv_failed []] init) 5
       = Some ''Bob''
   \<and> clients (exec [Accept 7, Accept 5, Run 1 (Recv_bytes (''Bob'' @ [NUL])) [],
                  Run 1 Recv_failed [], Run 1 Recv_failed [], Run 1 Recv_failed [],
                  Run 1 Recv_failed []] init) = [7]
   \<and> clientNames (exec [Accept 7, Accept 5, Run 1 (Recv_bytes (''Bob'' @ [NUL])) [],
                  Run 1 Recv_failed [], Run 1 Recv_failed [], Run 1 Recv_failed [],
                  Run 1 Recv_failed []] init) 5 = None
   \<and> sends_of (new_events
        (exec [Accept 7, Accept 5, Run 1 (Recv_bytes (''Bob'' @ [NUL])) [],
               Run 1 Recv_failed [], Run 1 Recv_failed [], Run 1 Recv_failed [],
               Run 1 Recv_failed []] init)
        (handleClient 1 Recv_failed []
          (exec [Accept 7, Accept 5, Run 1 (Recv_bytes (''Bob'' @ [NUL])) [],
                 Run 1 Recv_failed [], Run 1 Recv_failed [], Run 1 Recv_failed [],
                 Run 1 Recv_failed []] init)))
      = [(7, ''Bob has left the chat.'' @ [NUL], False)]
   \<and> buf_string (buf (threads (exec double_close_run_1 init) ! 2)) = Some ''Bob''
   \<and> pc (threads (exec (double_close_run_1 @ double_close_run_2 @ double_close_run_3) init) ! 2)
       = L431
   \<and> clientNames (exec (double_close_run_1 @ double_close_run_2 @ double_close_run_3) init) 5
       = None
   \<and> sends_of (new_events
        (exec (double_close_run_1 @ double_close_run_2 @ double_close_run_3
                 @ [Run 2 Recv_failed []]) init)
        (handleClient 2 Recv_failed []
          (exec (double_close_run_1 @ double_close_run_2 @ double_close_run_3
                   @ [Run 2 Recv_failed []]) init)))
      = [(7, ''Bob has left the chat.'' @ [NUL], False)]"
  using leave_notice_carries_held_name
    [where tid = 1
       and ?st0.0 = "exec [Accept 7, Accept 5, Run 1 (Recv_bytes (''Bob'' @ [NUL])) []] init"
       and n = "''Bob''" and ?r0.0 = Recv_failed and ?fails0.0 = "[]"
       and ?sched0.0 = "[Run 1 Recv_failed [], Run 1 Recv_failed []]"
       and ?r1.0 = Recv_failed and ?fails1.0 = "[]" and ?sched1.0 = "[]"
       and ?r2.0 = Recv_failed and ?fails2.0 = "[]"]
    leave_notice_carries_held_name
    [where tid = 2 and ?st0.0 = "exec double_close_run_1 init" and n = "''Bob''"
       and ?r0.0 = Recv_failed and ?fails0.0 = "[]"
       and ?sched0.0 = "tl double_close_run_2 @ double_close_run_3"
       and ?r1.0 = Recv_failed and ?fails1.0 = "[]" and ?sched1.0 = "[]"
       and ?r2.0 = Recv_failed and ?fails2.0 = "[]"]
  by (simp add: double_close_run_1_def double_close_run_2_def double_close_run_3_def
      model_defs new_events_def)

text \<open>
  C8. The claim: for every message, the name that prefixes the broadcast comes from a
  lookup of the connection's id in the Registry at the time of the message. The source
  makes no lookup on this path: line 455 uses the local variable \<^verbatim>\<open>clientName\<close>. In the run
  in which handle 5 is closed twice, thread 2 holds handle 5 and the name Bob, the entry
  of handle 5 in \<^verbatim>\<open>clientNames\<close> says Cy, and the line thread 2 broadcasts says Bob.
\<close>

theorem lookup_counterexample:
  "pc (threads (exec (double_close_run_1 @ double_close_run_2 @ [Run 2 (Recv_bytes (''hi'' @ [NUL])) []]) init) ! 2) = L455
   \<and> clientSocket (threads (exec (double_close_run_1 @ double_close_run_2 @ [Run 2 (Recv_bytes (''hi'' @ [NUL])) []]) init) ! 2) = 5
   \<and> clientNames (exec (double_close_run_1 @ double_close_run_2 @ [Run 2 (Recv_bytes (''hi'' @ [NUL])) []]) init) 5 = Some ''Cy''
   \<and> sends_of (new_events
        (exec (double_close_run_1 @ double_close_run_2 @ [Run 2 (Recv_bytes (''hi'' @ [NUL])) []]) init)
        (step (Run 2 Recv_failed [])
          (exec (double_close_run_1 @ double_close_run_2 @ [Run 2 (Recv_bytes (''hi'' @ [NUL])) []]) init)))
      = [(7, ''Bob: hi'' @ [NUL], False)]"
  by (simp add: double_close_run_1_def double_close_run_2_def model_defs new_events_def)

text \<open>
  C8, as the source has it. A handler has read its name \<open>n\<close> (it is at line 405) and later
  a message (it is at line 455). The line it logs and broadcasts is \<open>n\<close>, a colon, a blank
  and the text of the buffer; what the step does is the same whatever \<^verbatim>\<open>clientNames\<close> holds.
\<close>

theorem chat_line_uses_held_name:
  fixes st0 :: system and tid :: nat and sched :: "action list"
    and r0 r :: recv_result and fails0 fails :: "nat list"
  defines "st1 \<equiv> exec sched (handleClient tid r0 fails0 st0)"
  defines "s \<equiv> clientSocket (threads st0 ! tid)"
  assumes "tid < length (threads st0)"
    and "pc (threads st0 ! tid) = L405"
    and "buf_string (buf (threads st0 ! tid)) = Some n"
    and "pc (threads st1 ! tid) = L455"
    and "buf_string (buf (threads st1 ! tid)) = Some payload"
  shows "trace (handleClient tid r fails st1)
           = trace st1 @ Log (Handler tid) (ReceivedLine (n @ '': '' @ payload))
               # broadcastMessage (Handler tid) fails (n @ '': '' @ payload) s st1
         \<and> new_events (st1\<lparr>clientNames := names\<rparr>) (handleClient tid r fails (st1\<lparr>clientNames := names\<rparr>))
             = new_events st1 (handleClient tid r fails st1)"
proof -
  let ?a = "handleClient tid r0 fails0 st0"
  have a: "tid < length (threads ?a)" "named_as s n (threads ?a ! tid)"
    using assms(3,4,5)
    by (simp_all add: handleClient_at handleClient_store_name_def named_as_def Let_def s_def)
  have b: "tid < length (threads st1) \<and> named_as s n (threads st1 ! tid)"
    unfolding st1_def using a named_as_step by (intro thread_invariant) simp_all
  then have b': "clientSocket (threads st1 ! tid) = s" "clientName (threads st1 ! tid) = n"
    using assms(6) by (simp_all add: named_as_def)
  have c: "trace (handleClient tid r fails st1)
           = trace st1 @ Log (Handler tid) (ReceivedLine (n @ '': '' @ payload))
               # broadcastMessage (Handler tid) fails (n @ '': '' @ payload) s st1"
    using b b' assms(6,7) by (simp add: handleClient_at handleClient_message_def Let_def)
  have d: "trace (handleClient tid r fails (st1\<lparr>clientNames := names\<rparr>))
           = trace (st1\<lparr>clientNames := names\<rparr>) @ Log (Handler tid) (ReceivedLine (n @ '': '' @ payload))
               # broadcastMessage (Handler tid) fails (n @ '': '' @ payload) s st1"
    using b b' assms(6,7)
    by (simp add: handleClient_at handleClient_message_def Let_def broadcastMessage_def)
  show ?thesis
    using c new_events_append [OF c] new_events_append [OF d] by simp
qed

theorem chat_line_uses_held_name_witness:
  "buf_string (buf (threads (exec double_close_run_1 init) ! 2)) = Some ''Bob''
   \<and> trace (exec (double_close_run_1 @ double_close_run_2
              @ [Run 2 (Recv_bytes (''hi'' @ [NUL])) [], Run 2 Recv_failed []]) init)
      = trace (exec (double_close_run_1 @ double_close_run_2
              @ [Run 2 (Recv_bytes (''hi'' @ [NUL])) []]) init)
        @ [Log (Handler 2) (ReceivedLine ''Bob: hi''), Lock (Handler 2),
           Send (Handler 2) 7 (''Bob: hi'' @ [NUL]) False, Unlock (Handler 2)]"
  using chat_line_uses_held_name
    [where tid = 2 and ?st0.0 = "exec double_close_run_1 init" and n = "''Bob''"
       and ?r0.0 = Recv_failed and ?fails0.0 = "[]"
       and sched = "tl double_close_run_2 @ [Run 2 (Recv_bytes (''hi'' @ [NUL])) []]"
       and payload = "''hi''" and r = Recv_failed and fails = "[]"]
  by (simp add: double_close_run_1_def double_close_run_2_def model_defs new_events_def)

text \<open>
  C9. The claim: a connection whose handshake failed stays in \<^verbatim>\<open>clients\<close> indefinitely, and
  every later broadcast attempts a send to its closed socket, which fails and is logged.
  The handshake path does leave the handle in \<^verbatim>\<open>clients\<close>, and only the disconnect branch
  removes handles; but that branch removes every occurrence of the handle of its own
  thread, and handles are given out again. In the first run below handle 5 fails its
  handshake, is accepted again, and when the second holder disconnects no entry for
  handle 5 is left. In the second run handle 5 is accepted again after the failure, and
  the sends of the next broadcast to both entries of handle 5 succeed: they reach the
  new connection.
\<close>

theorem stale_target_counterexample:
  "pc (threads (exec [Accept 5, Run 0 Recv_failed []] init) ! 0) = Finished
   \<and> clients (exec [Accept 5, Run 0 Recv_failed []] init) = [5]
   \<and> fresh_accepts [Accept 5, Run 0 Recv_failed [], Accept 5,
        Run 1 (Recv_bytes (''Bob'' @ [NUL])) [], Run 1 Recv_failed [], Run 1 Recv_failed [],
        Run 1 Recv_failed [], Run 1 Recv_failed []] init
   \<and> clients (exec [Accept 5, Run 0 Recv_failed [], Accept 5,
        Run 1 (Recv_bytes (''Bob'' @ [NUL])) [], Run 1 Recv_failed [], Run 1 Recv_failed [],
        Run 1 Recv_failed [], Run 1 Recv_failed []] init) = []
   \<and> sends_of (trace (exec [Accept 5, Run 0 Recv_failed [], Accept 5, Accept 7,
        Run 2 (Recv_bytes (''Al'' @ [NUL])) [], Run 2 Recv_failed [], Run 2 Recv_failed []] init))
      = [(5, ''Al has joined the chat.'' @ [NUL], False),
         (5, ''Al has joined the chat.'' @ [NUL], False)]"
  by (simp add: model_defs held_def)

text \<open>
  C9, as the source has it. When its first read returns zero bytes or an error, a handler
  closes its socket and leaves \<^verbatim>\<open>clients\<close> as it is. If no running handler holds the same
  handle, then for as long as \<^verbatim>\<open>accept\<close> does not return the handle again, the handle
  stays in \<^verbatim>\<open>clients\<close> and stays closed, and every broadcast of another sender makes a send
  to it that fails and is logged. The only step that takes a handle out of \<^verbatim>\<open>clients\<close> is
  the removal block of the disconnect branch (line 431), run by a handler that holds that
  handle.
\<close>

theorem stale_target:
  fixes st :: system and tid :: nat and r :: recv_result and fails :: "nat list"
    and sched :: "action list"
  defines "s \<equiv> clientSocket (threads st ! tid)"
  defines "st' \<equiv> exec sched (handleClient tid r fails st)"
  assumes "tid < length (threads st)"
    and "pc (threads st ! tid) = L403"
    and "bytesReceived r \<le> 0"
    and "s \<in> set (clients st)"
    and "s \<notin> set (held (handleClient tid r fails st))"
    and "Accept s \<notin> set sched"
    and "sender \<noteq> s"
  shows "clients (handleClient tid r fails st) = clients st
       \<and> s \<notin> opened (handleClient tid r fails st)
       \<and> s \<in> set (clients st')
       \<and> s \<notin> opened st'
       \<and> (s, message @ [NUL], True) \<in> set (sends_of (broadcastMessage w fails' message sender st'))
       \<and> failures_logged (broadcastMessage w fails' message sender st')
       \<and> (\<forall>x a u. x \<in> set (clients u) \<and> x \<notin> set (clients (step a u))
             \<longrightarrow> (\<exists>i r' f'. a = Run i r' f' \<and> i < length (threads u)
                     \<and> pc (threads u ! i) = L431 \<and> clientSocket (threads u ! i) = x))"
proof -
  have fits: "recv_fits r"
    using assms(5) by (cases r) (simp_all add: recv_fits_def)
  let ?f = "handleClient tid r fails st"
  have f: "clients ?f = clients st" "s \<notin> opened ?f"
    using assms(3,4,5) fits
    by (simp_all add: handleClient_at handleClient_recv_name_def Let_def s_def)
  then have "stale s ?f"
    using assms(6,7) by (simp add: stale_def)
  then have st': "stale s st'"
    unfolding st'_def using assms(8) by (rule stale_exec)
  have sent: "(s, message @ [NUL], True) \<in> set (sends_of (broadcastMessage w fails' message sender st'))"
    using st' assms(9) send_loop_to_closed [of s "clients st'" "opened st'" sender]
    by (simp add: stale_def broadcastMessage_def sends_of_append)
  have logged: "failures_logged (broadcastMessage w fails' message sender st')"
    by (simp add: broadcastMessage_def failures_logged_send_loop)
  have only: "\<forall>x a u. x \<in> set (clients u) \<and> x \<notin> set (clients (step a u))
             \<longrightarrow> (\<exists>i r' f'. a = Run i r' f' \<and> i < length (threads u)
                     \<and> pc (threads u ! i) = L431 \<and> clientSocket (threads u ! i) = x)"
    using clients_step by blast
  show ?thesis
    using f st' sent logged only unfolding stale_def by blast
qed

theorem stale_target_witness:
  "clientSocket (threads (exec [Accept 5, Accept 7] init) ! 0) = 5
   \<and> 5 \<notin> set (held (handleClient 0 Recv_failed [] (exec [Accept 5, Accept 7] init)))
   \<and> clients (exec [Accept 5, Accept 7, Run 0 Recv_failed [],
         Run 1 (Recv_bytes (''Al'' @ [NUL])) [], Run 1 Recv_failed [], Accept 9] init) = [5, 7, 9]
   \<and> sends_of (broadcastMessage (Handler 1) [] ''Al has joined the chat.'' 7
        (exec [Accept 5, Accept 7, Run 0 Recv_failed [],
         Run 1 (Recv_bytes (''Al'' @ [NUL])) [], Run 1 Recv_failed [], Accept 9] init))
      = [(5, ''Al has joined the chat.'' @ [NUL], True), (9, ''Al has joined the chat.'' @ [NUL], False)]"
  using stale_target
    [where st = "exec [Accept 5, Accept 7] init" and tid = 0 and r = Recv_failed and fails = "[]"
       and sched = "[Run 1 (Recv_bytes (''Al'' @ [NUL])) [], Run 1 Recv_failed [], Accept 9]"
       and sender = 7 and message = "''Al has joined the chat.''" and w = "Handler 1" and fails' = "[]"]
  by (simp add: model_defs held_def)

text \<open>
  C10. The claim: the stored name is the raw bytes of the first read, with the terminator
  the client appends. In the source the name is \<^verbatim>\<open>std::string(buf, 0, bytesReceived)\<close>, which
  ends before the first NUL byte of the buffer: when the first read is what the client
  sends for the name Al, the stored name is Al, without the terminator.
\<close>

theorem stored_name_counterexample:
  "hd (client_main ''Al'' []) = ''Al'' @ [NUL]
   \<and> clientNames (exec [Accept 5, Run 0 (Recv_bytes (hd (client_main ''Al'' []))) [],
                        Run 0 Recv_failed []] init) 5 = Some ''Al''
   \<and> clientNames (exec [Accept 5, Run 0 (Recv_bytes (hd (client_main ''Al'' []))) [],
                        Run 0 Recv_failed []] init) 5 \<noteq> Some (hd (client_main ''Al'' []))"
  by (simp add: model_defs client_main_def)

text \<open>
  C10, as the source has it. Every \<^verbatim>\<open>send\<close> of a broadcast writes the message and one NUL
  byte after it, \<^verbatim>\<open>message.size() + 1\<close> bytes. The client writes its name and a NUL byte
  first, and every block it writes is the name or a line of its input with a NUL byte
  after it. The name the server stores for a first read \<open>d\<close> that was not empty (and that
  does not fill the buffer without a NUL byte) is \<open>d\<close> up to its first NUL byte, without
  it, whatever the bytes are and whatever \<^verbatim>\<open>clientNames\<close> holds already; so when the first
  read is the block the client wrote for a name without NUL bytes, the stored name is
  that name.
\<close>

theorem terminators:
  "(\<forall>(c, bs, f) \<in> set (sends_of (broadcastMessage w fails message sender st)).
       bs = message @ [NUL] \<and> length bs = length message + 1)
   \<and> hd (client_main name userInputs) = name @ [NUL]
   \<and> (\<forall>b \<in> set (client_main name userInputs).
         \<exists>text. b = text @ [NUL] \<and> (text = name \<or> text \<in> set userInputs))
   \<and> (tid < length (threads st) \<and> pc (threads st ! tid) = L403
        \<and> d \<noteq> [] \<and> length d \<le> 4096 \<and> (NUL \<in> set d \<or> length d < 4096)
      \<longrightarrow> clientNames (handleClient tid r1 fails1 (handleClient tid (Recv_bytes d) fails0 st))
            = (clientNames st)(clientSocket (threads st ! tid) \<mapsto> takeWhile (\<lambda>c. c \<noteq> NUL) d))
   \<and> (tid < length (threads st) \<and> pc (threads st ! tid) = L403
        \<and> NUL \<notin> set name \<and> length name < 4096
      \<longrightarrow> clientNames (handleClient tid r1 fails1
              (handleClient tid (Recv_bytes (hd (client_main name userInputs))) fails0 st))
            (clientSocket (threads st ! tid)) = Some name)"
proof (intro conjI impI)
  show "\<forall>(c, bs, f) \<in> set (sends_of (broadcastMessage w fails message sender st)).
          bs = message @ [NUL] \<and> length bs = length message + 1"
    using sends_broadcast by fastforce
  show "hd (client_main name userInputs) = name @ [NUL]"
    by (simp add: client_main_def)
  show "\<forall>b \<in> set (client_main name userInputs).
          \<exists>text. b = text @ [NUL] \<and> (text = name \<or> text \<in> set userInputs)"
    by (auto simp: client_main_def)
next
  assume h: "tid < length (threads st) \<and> pc (threads st ! tid) = L403
        \<and> d \<noteq> [] \<and> length d \<le> 4096 \<and> (NUL \<in> set d \<or> length d < 4096)"
  then have bs: "buf_string d = Some (takeWhile (\<lambda>c. c \<noteq> NUL) d)"
    using buf_string_terminated by blast
  let ?st1 = "handleClient tid (Recv_bytes d) fails0 st"
  have 1: "?st1 = st\<lparr>threads := (threads st)[tid := (threads st ! tid)\<lparr>buf := d, pc := L405\<rparr>]\<rparr>"
    using h by (simp add: handleClient_at handleClient_recv_name_def recv_fits_def)
  show "clientNames (handleClient tid r1 fails1 ?st1)
            = (clientNames st)(clientSocket (threads st ! tid) \<mapsto> takeWhile (\<lambda>c. c \<noteq> NUL) d)"
    unfolding 1 using h bs
    by (simp add: handleClient_at handleClient_store_name_def)
next
  assume h: "tid < length (threads st) \<and> pc (threads st ! tid) = L403
        \<and> NUL \<notin> set name \<and> length name < 4096"
  let ?d = "name @ [NUL]"
  have tw: "takeWhile (\<lambda>c. c \<noteq> NUL) ?d = name"
    using h by (simp add: takeWhile_append)
  have bs: "buf_string ?d = Some name"
    using h buf_string_terminated [of ?d] tw by simp
  let ?st1 = "handleClient tid (Recv_bytes ?d) fails0 st"
  have 1: "?st1 = st\<lparr>threads := (threads st)[tid := (threads st ! tid)\<lparr>buf := ?d, pc := L405\<rparr>]\<rparr>"
    using h by (simp add: handleClient_at handleClient_recv_name_def recv_fits_def)
  have "clientNames (handleClient tid r1 fails1 ?st1) (clientSocket (threads st ! tid)) = Some name"
    unfolding 1 using h bs
    by (simp add: handleClient_at handleClient_store_name_def)
  then show "clientNames (handleClient tid r1 fails1
              (handleClient tid (Recv_bytes (hd (client_main name userInputs))) fails0 st))
            (clientSocket (threads st ! tid)) = Some name"
    by (simp add: client_main_def)
qed

theorem terminators_witness:
  "client_main ''Al'' [''hi'', [], ''yo''] = [''Al'' @ [NUL], ''hi'' @ [NUL], ''yo'' @ [NUL]]
   \<and> clientNames (handleClient 0 Recv_failed []
        (handleClient 0 (Recv_bytes (hd (client_main ''Al'' [''hi'', [], ''yo'']))) []
           (exec [Accept 5] init))) 5 = Some ''Al''
   \<and> clientNames (handleClient 0 Recv_failed []
        (handleClient 0 (Recv_bytes (''Al'' @ [NUL] @ ''hi'' @ [NUL])) []
           (exec [Accept 5] init))) 5 = Some ''Al''"
  using terminators [where tid = 0 and st = "exec [Accept 5] init" and name = "''Al''"
      and userInputs = "[''hi'', [], ''yo'']" and d = "''Al'' @ [NUL] @ ''hi'' @ [NUL]"
      and ?r1.0 = Recv_failed and ?fails1.0 = "[]" and ?fails0.0 = "[]"]
  by (simp add: model_defs client_main_def)

end
